theory Spec2Isabelle
  imports Main
begin

section \<open>Strings\<close>

text \<open>
  A Go string is a sequence of bytes and \<open>len\<close> counts bytes, so a string is a
  \<^typ>\<open>char list\<close> here. The three functions of package \<open>strings\<close> that
  \<open>handleSearch\<close> calls are modelled for the one-byte separator it passes.
\<close>

definition backslash :: char where
  "backslash = CHR 0x5C"

definition newline :: char where
  "newline = CHR 0x0A"

definition dquote :: char where
  "dquote = CHR 0x22"

definition strings_ReplaceAll :: "string \<Rightarrow> char \<Rightarrow> string \<Rightarrow> string" where
  \<comment> \<open>\<open>strings.ReplaceAll(s, old, new)\<close> for a one-byte \<open>old\<close>\<close>
  "strings_ReplaceAll s old new = concat (map (\<lambda>c. if c = old then new else [c]) s)"

fun strings_Split :: "string \<Rightarrow> char \<Rightarrow> string list" where
  \<comment> \<open>\<open>strings.Split(s, sep)\<close> for a one-byte \<open>sep\<close>; the result is never empty\<close>
  "strings_Split [] sep = [[]]"
| "strings_Split (c # cs) sep =
     (if c = sep then [] # strings_Split cs sep
      else (case strings_Split cs sep of
              [] \<Rightarrow> [[c]]
            | p # ps \<Rightarrow> (c # p) # ps))"

fun strings_Join :: "string list \<Rightarrow> string \<Rightarrow> string" where
  "strings_Join [] sep = []"
| "strings_Join [e] sep = e"
| "strings_Join (e # es) sep = e @ sep @ strings_Join es sep"

section \<open>The regular expression library\<close>

text \<open>
  \<open>handleSearch\<close> compiles the pattern \<open>(?:[a-z0-9\-]+)\.\<close> followed by the
  configured domain, in which every dot has been replaced by \<open>\.\<close>, and asks for the
  first match. Package \<open>regexp\<close> belongs to the Go standard library; what follows is
  a model of \<open>regexp.Compile\<close> and \<open>(*Regexp).FindString\<close> for a fragment of
  its syntax: ASCII literals, backslash followed by ASCII punctuation, character classes
  made of single characters and ranges, groups, alternation and the greedy operators
  \<open>*\<close>, \<open>+\<close> and \<open>?\<close>. A pattern inside the fragment compiles or is a syntax
  error as in the library; a pattern that leaves the fragment (any other escape, a
  negated or named class, \<open>.\<close>, \<open>^\<close>, \<open>$\<close>, braces, flags, non-greedy
  operators, a repeated subexpression that matches the empty string, a byte outside
  ASCII) is reported as \<open>Unsupported\<close>: for such a pattern the library's answer, nil
  or a matcher, is a parameter of the model. The library's limits on the size of a
  compiled program are not modelled.
\<close>

datatype regex =
    Empty
  | Lit char
  | Class "(char \<times> char) list"
  | Cat regex regex
  | Alt regex regex
  | Star regex
  | Plus regex
  | Quest regex

datatype pending = NoPend | HaveLo char | HaveDash char

datatype mode =
    Normal
  | Escape
  | ParenOpen
  | ParenQuest
  | InClass "(char \<times> char) list" pending
  | ClassEscape "(char \<times> char) list" pending

record pstate =
  stack :: "(regex list \<times> regex list) list"
  alts :: "regex list"
  seq :: "regex list"
  mode :: mode
  lastRepeat :: bool

datatype step_result = Continue pstate | Syntax_error | Unsupported_syntax

datatype compiled = Compiled regex | Compile_error | Unsupported

definition is_ascii :: "char \<Rightarrow> bool" where
  "is_ascii c = ((of_char c :: nat) < 128)"

definition between :: "char \<Rightarrow> char \<Rightarrow> char \<Rightarrow> bool" where
  "between lo hi c = ((of_char lo :: nat) \<le> of_char c \<and> (of_char c :: nat) \<le> of_char hi)"

definition isalnum :: "char \<Rightarrow> bool" where
  "isalnum c = (between CHR ''0'' CHR ''9'' c \<or> between CHR ''A'' CHR ''Z'' c
                \<or> between CHR ''a'' CHR ''z'' c)"

fun in_class :: "(char \<times> char) list \<Rightarrow> char \<Rightarrow> bool" where
  "in_class [] c = False"
| "in_class ((lo, hi) # rs) c = (between lo hi c \<or> in_class rs c)"

primrec nullable :: "regex \<Rightarrow> bool" where
  "nullable Empty = True"
| "nullable (Lit c) = False"
| "nullable (Class rs) = False"
| "nullable (Cat r1 r2) = (nullable r1 \<and> nullable r2)"
| "nullable (Alt r1 r2) = (nullable r1 \<or> nullable r2)"
| "nullable (Star r) = True"
| "nullable (Plus r) = nullable r"
| "nullable (Quest r) = True"

fun mk_cat :: "regex list \<Rightarrow> regex" where
  "mk_cat [] = Empty"
| "mk_cat [r] = r"
| "mk_cat (r # rs) = Cat r (mk_cat rs)"

fun mk_alt :: "regex list \<Rightarrow> regex" where
  "mk_alt [] = Empty"
| "mk_alt [r] = r"
| "mk_alt (r # rs) = Alt r (mk_alt rs)"

definition group :: "regex list \<Rightarrow> regex list \<Rightarrow> regex" where
  \<comment> \<open>the finished alternatives and the current concatenation, both newest first\<close>
  "group as rs = mk_alt (rev (mk_cat (rev rs) # as))"

definition push :: "pstate \<Rightarrow> pstate" where
  "push st = st\<lparr>stack := (alts st, seq st) # stack st, alts := [], seq := [],
                 mode := Normal, lastRepeat := False\<rparr>"

definition repetition :: "char \<Rightarrow> regex \<Rightarrow> regex" where
  "repetition c r = (if c = CHR ''*'' then Star r else if c = CHR ''+'' then Plus r else Quest r)"

definition literal :: "pstate \<Rightarrow> char \<Rightarrow> step_result" where
  "literal st c = Continue (st\<lparr>seq := Lit c # seq st, mode := Normal, lastRepeat := False\<rparr>)"

definition normal_step :: "pstate \<Rightarrow> char \<Rightarrow> step_result" where
  "normal_step st c =
     (if \<not> is_ascii c then Unsupported_syntax
      else if c = CHR ''('' then Continue (st\<lparr>mode := ParenOpen\<rparr>)
      else if c = CHR '')'' then
        (case stack st of
           [] \<Rightarrow> Syntax_error
         | (as, rs) # rest \<Rightarrow>
             Continue (st\<lparr>stack := rest, alts := as, seq := group (alts st) (seq st) # rs,
                           lastRepeat := False\<rparr>))
      else if c = CHR ''|'' then
        Continue (st\<lparr>alts := mk_cat (rev (seq st)) # alts st, seq := [], lastRepeat := False\<rparr>)
      else if c = CHR ''*'' \<or> c = CHR ''+'' \<or> c = CHR ''?'' then
        (case seq st of
           [] \<Rightarrow> Syntax_error
         | r # rs \<Rightarrow>
             if lastRepeat st then (if c = CHR ''?'' then Unsupported_syntax else Syntax_error)
             else if c \<noteq> CHR ''?'' \<and> nullable r then Unsupported_syntax
             else Continue (st\<lparr>seq := repetition c r # rs, lastRepeat := True\<rparr>))
      else if c = CHR ''['' then Continue (st\<lparr>mode := InClass [] NoPend\<rparr>)
      else if c = backslash then Continue (st\<lparr>mode := Escape\<rparr>)
      else if c \<in> set ''.^${}]'' then Unsupported_syntax
      else literal st c)"

definition class_item :: "pstate \<Rightarrow> (char \<times> char) list \<Rightarrow> pending \<Rightarrow> char \<Rightarrow> step_result" where
  "class_item st rs pend c =
     (case pend of
        NoPend \<Rightarrow> Continue (st\<lparr>mode := InClass rs (HaveLo c)\<rparr>)
      | HaveLo lo \<Rightarrow> Continue (st\<lparr>mode := InClass ((lo, lo) # rs) (HaveLo c)\<rparr>)
      | HaveDash lo \<Rightarrow>
          if (of_char lo :: nat) \<le> of_char c
          then Continue (st\<lparr>mode := InClass ((lo, c) # rs) NoPend\<rparr>)
          else Syntax_error)"

definition close_class :: "pstate \<Rightarrow> (char \<times> char) list \<Rightarrow> step_result" where
  "close_class st rs =
     Continue (st\<lparr>seq := Class (rev rs) # seq st, mode := Normal, lastRepeat := False\<rparr>)"

definition class_step :: "pstate \<Rightarrow> (char \<times> char) list \<Rightarrow> pending \<Rightarrow> char \<Rightarrow> step_result" where
  "class_step st rs pend c =
     (if \<not> is_ascii c then Unsupported_syntax
      else if c = CHR '']'' then
        (case pend of
           NoPend \<Rightarrow> if rs = [] then Unsupported_syntax else close_class st rs
         | HaveLo lo \<Rightarrow> close_class st ((lo, lo) # rs)
         | HaveDash lo \<Rightarrow> Unsupported_syntax)
      else if c = backslash then Continue (st\<lparr>mode := ClassEscape rs pend\<rparr>)
      else if c = CHR ''-'' then
        (case pend of
           HaveLo lo \<Rightarrow> Continue (st\<lparr>mode := InClass rs (HaveDash lo)\<rparr>)
         | _ \<Rightarrow> Unsupported_syntax)
      else if c = CHR ''['' \<or> c = CHR ''^'' then Unsupported_syntax
      else class_item st rs pend c)"

definition step :: "pstate \<Rightarrow> char \<Rightarrow> step_result" where
  "step st c =
     (case mode st of
        Normal \<Rightarrow> normal_step st c
      | Escape \<Rightarrow> if is_ascii c \<and> \<not> isalnum c then literal st c else Unsupported_syntax
      | ParenOpen \<Rightarrow>
          if c = CHR ''?'' then Continue (st\<lparr>mode := ParenQuest\<rparr>) else normal_step (push st) c
      | ParenQuest \<Rightarrow> if c = CHR '':'' then Continue (push st) else Unsupported_syntax
      | InClass rs pend \<Rightarrow> class_step st rs pend c
      | ClassEscape rs pend \<Rightarrow>
          if is_ascii c \<and> \<not> isalnum c then class_item st rs pend c else Unsupported_syntax)"

definition finish :: "pstate \<Rightarrow> compiled" where
  \<comment> \<open>end of the pattern: an open group, an open class or a trailing backslash is an error\<close>
  "finish st =
     (case mode st of
        Normal \<Rightarrow> if stack st = [] then Compiled (group (alts st) (seq st)) else Compile_error
      | _ \<Rightarrow> Compile_error)"

fun parse_loop :: "pstate \<Rightarrow> string \<Rightarrow> compiled" where
  "parse_loop st [] = finish st"
| "parse_loop st (c # cs) =
     (case step st c of
        Continue st' \<Rightarrow> parse_loop st' cs
      | Syntax_error \<Rightarrow> Compile_error
      | Unsupported_syntax \<Rightarrow> Unsupported)"

definition initial :: pstate where
  "initial = \<lparr>stack = [], alts = [], seq = [], mode = Normal, lastRepeat = False\<rparr>"

definition regexp_Compile :: "string \<Rightarrow> compiled" where
  "regexp_Compile pattern = parse_loop initial pattern"

text \<open>
  Matching is leftmost-first, as the library documents it: the match starts as early as
  possible, and among the matches that start there it is the one a backtracking search
  finds first. \<open>ends r s\<close> lists the lengths of the prefixes of \<open>s\<close> that \<open>r\<close>
  matches, in the order in which backtracking tries them.
\<close>

fun star_ends :: "(string \<Rightarrow> nat list) \<Rightarrow> nat \<Rightarrow> string \<Rightarrow> nat list" where
  "star_ends f 0 s = [0]"
| "star_ends f (Suc n) s =
     concat (map (\<lambda>e. if e = 0 then [] else map ((+) e) (star_ends f n (drop e s))) (f s)) @ [0]"

primrec ends :: "regex \<Rightarrow> string \<Rightarrow> nat list" where
  "ends Empty = (\<lambda>s. [0])"
| "ends (Lit c) = (\<lambda>s. case s of [] \<Rightarrow> [] | x # _ \<Rightarrow> if x = c then [1] else [])"
| "ends (Class rs) = (\<lambda>s. case s of [] \<Rightarrow> [] | x # _ \<Rightarrow> if in_class rs x then [1] else [])"
| "ends (Cat r1 r2) = (\<lambda>s. concat (map (\<lambda>e. map ((+) e) (ends r2 (drop e s))) (ends r1 s)))"
| "ends (Alt r1 r2) = (\<lambda>s. ends r1 s @ ends r2 s)"
| "ends (Star r) = (\<lambda>s. star_ends (ends r) (length s) s)"
| "ends (Plus r) =
     (\<lambda>s. concat (map (\<lambda>e. map ((+) e) (star_ends (ends r) (length s) (drop e s))) (ends r s)))"
| "ends (Quest r) = (\<lambda>s. ends r s @ [0])"

fun regexp_FindString :: "regex \<Rightarrow> string \<Rightarrow> string" where
  \<comment> \<open>the text of the leftmost match, the empty string when there is none\<close>
  "regexp_FindString r [] = []"
| "regexp_FindString r (c # cs) =
     (case ends r (c # cs) of
        [] \<Rightarrow> regexp_FindString r cs
      | e # _ \<Rightarrow> if e = 0 then [] else take e (c # cs))"

section \<open>Identifier extraction in \<open>handleSearch\<close>\<close>

text \<open>
  A function either returns or panics. A compiled matcher is a regular expression of the
  fragment or, outside the fragment, the function that \<open>FindString\<close> computes.
\<close>

datatype 'a outcome = Returned 'a | Panic

datatype Regexp = Modelled regex | Outside "string \<Rightarrow> string"

definition pattern_prefix :: string where
  \<comment> \<open>the Go literal \<open>"(?:[a-z0-9\\-]+)\\."\<close>\<close>
  "pattern_prefix = ''(?:[a-z0-9'' @ [backslash] @ ''-]+)'' @ [backslash] @ ''.''"

definition Compile_ptr :: "(string \<Rightarrow> (string \<Rightarrow> string) option) \<Rightarrow> string \<Rightarrow> Regexp option" where
  \<comment> \<open>\<open>re, _ := regexp.Compile(p)\<close>: the error is dropped, \<open>re\<close> is nil after one\<close>
  "Compile_ptr outside p =
     (case regexp_Compile p of
        Compiled r \<Rightarrow> Some (Modelled r)
      | Compile_error \<Rightarrow> None
      | Unsupported \<Rightarrow> map_option Outside (outside p))"

definition FindString :: "Regexp option \<Rightarrow> string \<Rightarrow> string outcome" where
  \<comment> \<open>\<open>re.FindString(s)\<close>: a nil \<open>re\<close> is dereferenced\<close>
  "FindString re s =
     (case re of
        None \<Rightarrow> Panic
      | Some (Modelled r) \<Rightarrow> Returned (regexp_FindString r s)
      | Some (Outside matcher) \<Rightarrow> Returned (matcher s))"

fun scan :: "string list \<Rightarrow> nat \<Rightarrow> string list \<Rightarrow> string \<times> string \<Rightarrow> string \<times> string" where
  \<comment> \<open>\<open>for i, part := range parts\<close>, from index \<open>i\<close> on, with \<open>(uniqueID, fullID)\<close>\<close>
  "scan parts i [] ids = ids"
| "scan parts i (part # rest) (uniqueID, fullID) =
     scan parts (i + 1) rest
       (if length part = 33
        then (part, if i + 1 \<le> length parts then strings_Join (take (i + 1) parts) ''.'' else part)
        else (uniqueID, fullID))"

definition match_ids :: "string \<Rightarrow> string \<times> string" where
  \<comment> \<open>lines 120 to 134: from the matched text to \<open>(uniqueID, fullID)\<close>\<close>
  "match_ids match =
     (let parts = (if match \<noteq> [] then strings_Split match CHR ''.'' else [])
      in if length parts > 0 then scan parts 0 parts ([], []) else ([], []))"

definition handleSearch_ids ::
    "(string \<Rightarrow> (string \<Rightarrow> string) option) \<Rightarrow> string \<Rightarrow> string \<Rightarrow> (string \<times> string) outcome" where
  \<comment> \<open>lines 115 to 134, from \<open>options.Domain\<close> and the base object\<close>
  "handleSearch_ids outside rootDomain baseObject =
     (let domain = strings_ReplaceAll rootDomain CHR ''.'' [backslash, CHR ''.''];
          re = Compile_ptr outside (pattern_prefix @ domain)
      in case FindString re baseObject of
           Panic \<Rightarrow> Panic
         | Returned match \<Rightarrow> Returned (match_ids match))"

section \<open>Data model\<close>

text \<open>
  Modelled from the spec: the \<open>Interaction\<close> and \<open>Options\<close> structs are declared
  outside the file under study; their fields are the ones the handlers set and the
  specification lists. A struct literal leaves the fields it does not name at their zero
  values: the empty string, and the zero time, written \<open>0\<close>.
\<close>

record Interaction =
  Protocol :: string
  UniqueID :: string
  FullId :: string
  RawRequest :: string
  RemoteAddress :: string
  Timestamp :: nat

record Options =
  Domain_opt :: string
  Token :: string

datatype certificate = NoCertificate | LocalhostCert | AutoCert string

record AutoTLS =
  GetCertificate :: "string + certificate"

record LDAPServer =
  options :: Options
  autoTls :: "AutoTLS option"

record tls_Config =
  MinVersion :: nat
  MaxVersion :: nat
  Certificates :: "certificate list"
  ServerName :: string

datatype transport = Plaintext | TLS_Server transport tls_Config

record Client =
  Addr :: string
  conn :: transport
  requests :: "nat list"

datatype modify_operation = OperationAdd | OperationDelete | OperationReplace | OperationOther

text \<open>
  A decoded request. The handlers print its fields with \<open>%s\<close> and \<open>%d\<close>; a field
  holds the text so printed. A message carries, besides the operation, what the
  library's \<open>m.ProtocolOpType()\<close> and \<open>m.String()\<close> return for it.
\<close>

datatype protocol_op =
    BindRequest string string string
  | SearchRequest string string string string string
  | AbandonRequest nat
  | CompareRequest string string string
  | AddRequest string "(string \<times> string list) list"
  | DelRequest string
  | ModifyRequest string "(modify_operation \<times> string \<times> string list) list"
  | ExtendedRequest string string
  | OtherRequest

record Message =
  ProtocolOp :: protocol_op
  ProtocolOpType :: nat
  String_text :: string

datatype result_code =
    LDAPResultSuccess
  | LDAPResultOperationsError
  | LDAPResultCompareTrue
  | LDAPResultUnwillingToPerform

datatype response =
    BindResponse result_code string
  | SearchResultEntry string "(string \<times> string list) list"
  | SearchResultDoneResponse result_code
  | CompareResponse result_code
  | AddResponse result_code
  | DeleteResponse result_code
  | ModifyResponse result_code
  | ExtendedResponse result_code string string
  | Response result_code string

text \<open>
  What a handler does is the list of its calls to its collaborators, in order: the
  response writer, the encoder, the logger, the storage, the request being abandoned and
  the TLS connection.
\<close>

datatype call =
    Write response
  | Encode Interaction
  | Warning string
  | Debug string
  | AddInteraction string string
  | AddInteractionWithId string string
  | Abandon nat
  | Handshake tls_Config

text \<open>
  The collaborators' answers: the \<open>n\<close>-th reading of the clock during one handler
  run, the encoder's buffer or error, the storage's error if any, the outcome of parsing
  the embedded key pair, the error of the TLS handshake if any, and what
  \<open>regexp.Compile\<close> returns for a pattern outside the modelled fragment.
\<close>

record env =
  time_Now :: "nat \<Rightarrow> nat"
  jsoniter_Encode :: "Interaction \<Rightarrow> string + string"
  Storage_AddInteraction :: "string \<Rightarrow> string \<Rightarrow> string option"
  Storage_AddInteractionWithId :: "string \<Rightarrow> string \<Rightarrow> string option"
  X509KeyPair_localhost :: "string + certificate"
  Handshake_error :: "string option"
  regexp_outside :: "string \<Rightarrow> (string \<Rightarrow> string) option"

datatype ending = Done | Panicked

record run =
  calls :: "call list"
  client_after :: Client
  ending :: ending

definition NoticeOfStartTLS :: string where
  "NoticeOfStartTLS = ''1.3.6.1.4.1.1466.20037''"

definition NoticeOfWhoAmI :: string where
  "NoticeOfWhoAmI = ''1.3.6.1.4.1.4203.1.11.3''"

definition ApplicationBindRequest :: nat where
  "ApplicationBindRequest = 0"

definition VersionSSL30 :: nat where
  "VersionSSL30 = 0x0300"

definition VersionTLS12 :: nat where
  "VersionTLS12 = 0x0303"

section \<open>The recorder and the handlers\<close>

abbreviation Interaction_of :: "string \<Rightarrow> string \<Rightarrow> Interaction" where
  \<comment> \<open>the literal \<open>Interaction{RemoteAddress: host, RawRequest: message}\<close>\<close>
  "Interaction_of host message \<equiv>
     \<lparr>Protocol = [], UniqueID = [], FullId = [], RawRequest = message,
      RemoteAddress = host, Timestamp = 0\<rparr>"

definition finished :: "Client \<Rightarrow> call list \<Rightarrow> run" where
  "finished c cs = \<lparr>calls = cs, client_after = c, ending = Done\<rparr>"

definition panicked :: "Client \<Rightarrow> call list \<Rightarrow> run" where
  "panicked c cs = \<lparr>calls = cs, client_after = c, ending = Panicked\<rparr>"

definition logInteraction :: "LDAPServer \<Rightarrow> env \<Rightarrow> nat \<Rightarrow> Interaction \<Rightarrow> call list" where
  \<comment> \<open>\<open>n\<close> clock readings were taken earlier in the same handler run\<close>
  "logInteraction srv e n interaction0 =
     (let interaction = interaction0\<lparr>Protocol := ''ldap'', Timestamp := time_Now e n\<rparr>
      in Encode interaction #
         (case jsoniter_Encode e interaction of
            Inl err \<Rightarrow> [Warning (''Could not encode ldap interaction: '' @ err @ [newline])]
          | Inr buffer \<Rightarrow>
              Debug (''LDAP Interaction: '' @ [newline] @ buffer @ [newline]) #
              AddInteractionWithId (Token (options srv)) buffer #
              (case Storage_AddInteractionWithId e (Token (options srv)) buffer of
                 Some err \<Rightarrow> [Warning (''Could not store ldap interaction: '' @ err @ [newline])]
               | None \<Rightarrow> [])))"

text \<open>
  The library's accessors are type assertions on the decoded operation: an accessor
  called on a message of another kind panics.
\<close>

definition GetBindRequest :: "Message \<Rightarrow> (string \<times> string \<times> string) outcome" where
  "GetBindRequest m =
     (case ProtocolOp m of BindRequest a n p \<Rightarrow> Returned (a, n, p) | _ \<Rightarrow> Panic)"

definition GetSearchRequest :: "Message \<Rightarrow> (string \<times> string \<times> string \<times> string \<times> string) outcome" where
  "GetSearchRequest m =
     (case ProtocolOp m of SearchRequest b f fs a t \<Rightarrow> Returned (b, f, fs, a, t) | _ \<Rightarrow> Panic)"

definition GetAbandonRequest :: "Message \<Rightarrow> nat outcome" where
  "GetAbandonRequest m = (case ProtocolOp m of AbandonRequest r \<Rightarrow> Returned r | _ \<Rightarrow> Panic)"

definition GetCompareRequest :: "Message \<Rightarrow> (string \<times> string \<times> string) outcome" where
  "GetCompareRequest m =
     (case ProtocolOp m of CompareRequest en d v \<Rightarrow> Returned (en, d, v) | _ \<Rightarrow> Panic)"

definition GetAddRequest :: "Message \<Rightarrow> (string \<times> (string \<times> string list) list) outcome" where
  "GetAddRequest m = (case ProtocolOp m of AddRequest en as \<Rightarrow> Returned (en, as) | _ \<Rightarrow> Panic)"

definition GetModifyRequest ::
    "Message \<Rightarrow> (string \<times> (modify_operation \<times> string \<times> string list) list) outcome" where
  "GetModifyRequest m =
     (case ProtocolOp m of ModifyRequest ob cs \<Rightarrow> Returned (ob, cs) | _ \<Rightarrow> Panic)"

definition GetExtendedRequest :: "Message \<Rightarrow> (string \<times> string) outcome" where
  "GetExtendedRequest m =
     (case ProtocolOp m of ExtendedRequest n v \<Rightarrow> Returned (n, v) | _ \<Rightarrow> Panic)"

definition handleBind :: "LDAPServer \<Rightarrow> env \<Rightarrow> Client \<Rightarrow> Message \<Rightarrow> run" where
  "handleBind srv e c m =
     (case GetBindRequest m of
        Returned (choice, name, auth) \<Rightarrow>
          (let message = ''Type=Bind'' @ [newline]
                 @ ''AuthenticationChoice='' @ choice @ [newline]
                 @ ''User='' @ name @ [newline]
                 @ ''Pass='' @ auth @ [newline]
           in finished c (Write (BindResponse LDAPResultSuccess []) #
                          logInteraction srv e 0 (Interaction_of (Addr c) message)))
      | _ \<Rightarrow> panicked c [])"

definition slice_to :: "string \<Rightarrow> nat \<Rightarrow> string outcome" where
  \<comment> \<open>\<open>s[:n]\<close> panics when \<open>n\<close> exceeds the length\<close>
  "slice_to s n = (if n \<le> length s then Returned (take n s) else Panic)"

definition search_entry :: "string \<Rightarrow> response" where
  "search_entry baseObject =
     SearchResultEntry (''cn=interactsh, '' @ baseObject)
       [(''mail'', [''interact@s.h'', ''interact@s.h'']),
        (''company'', [''aaa'']),
        (''department'', [''bbbb'']),
        (''l'', [''cccc'']),
        (''mobile'', [''123456789'']),
        (''telephoneNumber'', [''123456789'']),
        (''cn'', [''interact''])]"

definition handleSearch :: "LDAPServer \<Rightarrow> env \<Rightarrow> Client \<Rightarrow> Message \<Rightarrow> run" where
  "handleSearch srv e c m =
     (let host = Addr c in
      case GetSearchRequest m of
        Returned (baseObject, filter_text, filterString, attributes, timeLimit) \<Rightarrow>
          (let message = ''Type=Search'' @ [newline]
                 @ ''BaseDn='' @ baseObject @ [newline]
                 @ ''Filter='' @ filter_text @ [newline]
                 @ ''FilterString='' @ filterString @ [newline]
                 @ ''Attributes='' @ attributes @ [newline]
                 @ ''TimeLimit='' @ timeLimit @ [newline];
               written = [Write (search_entry baseObject),
                          Write (SearchResultDoneResponse LDAPResultSuccess)]
           in case handleSearch_ids (regexp_outside e) (Domain_opt (options srv)) baseObject of
                Panic \<Rightarrow> panicked c written
              | Returned (uniqueID, fullID) \<Rightarrow>
                  if uniqueID \<noteq> [] then
                    (case slice_to uniqueID 20 of
                       Returned correlationID \<Rightarrow>
                         (let interaction =
                                \<lparr>Protocol = ''ldap'', UniqueID = uniqueID, FullId = fullID,
                                 RawRequest = message, RemoteAddress = host,
                                 Timestamp = time_Now e 0\<rparr>
                          in finished c
                               (written @
                                Encode interaction #
                                (case jsoniter_Encode e interaction of
                                   Inl err \<Rightarrow>
                                     [Warning (''Could not encode ldap interaction: '' @ err @ [newline])]
                                 | Inr buffer \<Rightarrow>
                                     Debug (''LDAP Interaction: '' @ [newline] @ buffer @ [newline]) #
                                     AddInteraction correlationID buffer #
                                     (case Storage_AddInteraction e correlationID buffer of
                                        Some err \<Rightarrow>
                                          [Warning (''Could not store ldap interaction: '' @ err @ [newline])]
                                      | None \<Rightarrow> [])) @
                                logInteraction srv e 1 (Interaction_of host message)))
                     | _ \<Rightarrow> panicked c written)
                  else finished c (written @ logInteraction srv e 0 (Interaction_of host message)))
      | _ \<Rightarrow> panicked c [])"

definition handleAbandon :: "LDAPServer \<Rightarrow> env \<Rightarrow> Client \<Rightarrow> Message \<Rightarrow> run" where
  "handleAbandon srv e c m =
     (case GetAbandonRequest m of
        Returned r \<Rightarrow>
          (let message = ''Type=Abandon'' @ [newline]
           in finished c ((if r \<in> set (requests c) then [Abandon r] else []) @
                          logInteraction srv e 0 (Interaction_of (Addr c) message)))
      | _ \<Rightarrow> panicked c [])"

definition handleNotFound :: "LDAPServer \<Rightarrow> env \<Rightarrow> Client \<Rightarrow> Message \<Rightarrow> run" where
  "handleNotFound srv e c m =
     (let message = ''Type='' @ String_text m @ [newline];
          res = (if ProtocolOpType m = ApplicationBindRequest
                 then BindResponse LDAPResultSuccess ''Default binding behavior set to return Success''
                 else Response LDAPResultUnwillingToPerform ''Operation not implemented by server'')
      in finished c (Write res # logInteraction srv e 0 (Interaction_of (Addr c) message)))"

definition handleCompare :: "LDAPServer \<Rightarrow> env \<Rightarrow> Client \<Rightarrow> Message \<Rightarrow> run" where
  "handleCompare srv e c m =
     (case GetCompareRequest m of
        Returned (entry, attributeDesc, assertionValue) \<Rightarrow>
          (let message = ''Type=Compare'' @ [newline]
                 @ ''Attribute name to compare='' @ attributeDesc @ [newline]
                 @ ''Attribute value expected='' @ assertionValue @ [newline]
           in finished c (Write (CompareResponse LDAPResultCompareTrue) #
                          logInteraction srv e 0 (Interaction_of (Addr c) message)))
      | _ \<Rightarrow> panicked c [])"

definition handleAdd :: "LDAPServer \<Rightarrow> env \<Rightarrow> Client \<Rightarrow> Message \<Rightarrow> run" where
  "handleAdd srv e c m =
     (case GetAddRequest m of
        Returned (entry, attributes) \<Rightarrow>
          (let message = ''Type=Add'' @ [newline]
                 @ ''Entity='' @ entry @ [newline]
                 @ concat (map (\<lambda>(type, vals).
                     concat (map (\<lambda>attributeValue.
                       ''Attribute Name='' @ type @ '' Attribute Value='' @ attributeValue @ [newline])
                       vals))
                     attributes)
           in finished c (Write (AddResponse LDAPResultSuccess) #
                          logInteraction srv e 0 (Interaction_of (Addr c) message)))
      | _ \<Rightarrow> panicked c [])"

definition handleDelete :: "LDAPServer \<Rightarrow> env \<Rightarrow> Client \<Rightarrow> Message \<Rightarrow> run" where
  \<comment> \<open>the source reads the request with \<open>GetCompareRequest\<close>\<close>
  "handleDelete srv e c m =
     (case GetCompareRequest m of
        Returned (entry, attributeDesc, assertionValue) \<Rightarrow>
          (let message = ''Type=Delete'' @ [newline]
                 @ ''Entity='' @ entry @ [newline]
           in finished c (Write (DeleteResponse LDAPResultSuccess) #
                          logInteraction srv e 0 (Interaction_of (Addr c) message)))
      | _ \<Rightarrow> panicked c [])"

definition operationString :: "modify_operation \<Rightarrow> string" where
  "operationString operation =
     (case operation of
        OperationAdd \<Rightarrow> ''Add''
      | OperationDelete \<Rightarrow> ''Delete''
      | OperationReplace \<Rightarrow> ''Replace''
      | OperationOther \<Rightarrow> [])"

definition handleModify :: "LDAPServer \<Rightarrow> env \<Rightarrow> Client \<Rightarrow> Message \<Rightarrow> run" where
  "handleModify srv e c m =
     (case GetModifyRequest m of
        Returned (object, changes) \<Rightarrow>
          (let message = ''Type=Modify'' @ [newline]
                 @ ''Entity='' @ object @ [newline]
                 @ concat (map (\<lambda>(operation, type, vals).
                     ''Operation='' @ operationString operation @ '' Attribute='' @ type
                     @ '' Values=['' @ strings_Join vals '' - '' @ '']'' @ [newline])
                     changes)
           in finished c (Write (ModifyResponse LDAPResultSuccess) #
                          logInteraction srv e 0 (Interaction_of (Addr c) message)))
      | _ \<Rightarrow> panicked c [])"

text \<open>
  Modelled from the spec: the automatic-certificate provider (package \<open>acme\<close>) is not in
  the file under study. It exposes a function returning the current certificate or an
  error; asking a nil provider for it dereferences nil.
\<close>

definition GetCertificateFunc :: "AutoTLS option \<Rightarrow> (string + certificate) outcome" where
  "GetCertificateFunc a = (case a of None \<Rightarrow> Panic | Some p \<Rightarrow> Returned (GetCertificate p))"

definition getTLSconfig :: "LDAPServer \<Rightarrow> env \<Rightarrow> (tls_Config \<times> string option) outcome" where
  "getTLSconfig srv e =
     (let after = (\<lambda>(cert, err).
            case err of
              Some er \<Rightarrow>
                Returned (\<lparr>MinVersion = 0, MaxVersion = 0, Certificates = [], ServerName = []\<rparr>,
                          Some er)
            | None \<Rightarrow>
                Returned (\<lparr>MinVersion = VersionSSL30, MaxVersion = VersionTLS12,
                           Certificates = [cert], ServerName = ''127.0.0.1''\<rparr>, None))
      in if autoTls srv \<noteq> None then
           (case X509KeyPair_localhost e of
              Inl er \<Rightarrow> after (NoCertificate, Some er)
            | Inr cert \<Rightarrow> after (cert, None))
         else
           (case GetCertificateFunc (autoTls srv) of
              Returned (Inr autoCert) \<Rightarrow> after (autoCert, None)
            | Returned (Inl er) \<Rightarrow> after (NoCertificate, None)
            | Panic \<Rightarrow> Panic))"

definition handleStartTLS :: "LDAPServer \<Rightarrow> env \<Rightarrow> Client \<Rightarrow> Message \<Rightarrow> run" where
  "handleStartTLS srv e c m =
     (let message = ''Type=StartTLS'' @ [newline] in
      case getTLSconfig srv e of
        Returned (tlsconfig, _) \<Rightarrow>
          (let tlsConn = TLS_Server (conn c) tlsconfig;
               res = ExtendedResponse LDAPResultSuccess NoticeOfStartTLS [];
               begun = [Write res, Handshake tlsconfig]
           in case Handshake_error e of
                Some err \<Rightarrow>
                  finished c
                    (begun @
                     [Write (ExtendedResponse LDAPResultOperationsError NoticeOfStartTLS
                               (''StartTLS Handshake error : '' @ [dquote] @ err @ [dquote]))])
              | None \<Rightarrow>
                  finished (c\<lparr>conn := tlsConn\<rparr>)
                    (begun @
                     logInteraction srv e 0
                       (Interaction_of (Addr c)
                          (message @ ''Result=StartTLS OK'' @ [newline]))))
      | _ \<Rightarrow> panicked c [])"

definition handleWhoAmI :: "LDAPServer \<Rightarrow> env \<Rightarrow> Client \<Rightarrow> Message \<Rightarrow> run" where
  "handleWhoAmI srv e c m =
     (let message = ''Type=WhoAmI'' @ [newline]
      in finished c (Write (ExtendedResponse LDAPResultSuccess [] []) #
                     logInteraction srv e 0 (Interaction_of (Addr c) message)))"

definition handleExtended :: "LDAPServer \<Rightarrow> env \<Rightarrow> Client \<Rightarrow> Message \<Rightarrow> run" where
  "handleExtended srv e c m =
     (case GetExtendedRequest m of
        Returned (requestName, requestValue) \<Rightarrow>
          (let message = ''Type=Extended'' @ [newline]
                 @ ''Name='' @ requestName @ [newline]
                 @ ''Value='' @ requestValue @ [newline]
           in finished c (Write (ExtendedResponse LDAPResultSuccess [] []) #
                          logInteraction srv e 0 (Interaction_of (Addr c) message)))
      | _ \<Rightarrow> panicked c [])"

definition handleLog :: "LDAPServer \<Rightarrow> env \<Rightarrow> string \<Rightarrow> string \<Rightarrow> string list \<Rightarrow> call list" where
  \<comment> \<open>\<open>formatted\<close> is \<open>fmt.Sprintf(f, v...)\<close>, \<open>printed\<close> lists \<open>fmt.Sprint(vv)\<close> for each \<open>vv\<close>\<close>
  "handleLog srv e f formatted printed =
     (let data = (if f \<noteq> [] then formatted else concat printed)
      in logInteraction srv e 0 (Interaction_of [] data))"

text \<open>
  The routes registered by \<open>NewLDAPServer\<close>: the first route that matches the
  operation, and the handler for requests no route matches. An extended route matches
  the requests whose name equals its \<open>RequestName\<close>; the generic extended route
  names none, so it matches the requests with an empty name, and an extended request
  with any other name reaches \<open>handleNotFound\<close>. A log line of the protocol library
  reaches \<open>handleLog\<close> through the logger interface.
\<close>

definition ServeLDAP :: "LDAPServer \<Rightarrow> env \<Rightarrow> Client \<Rightarrow> Message \<Rightarrow> run" where
  "ServeLDAP srv e c m =
     (case ProtocolOp m of
        BindRequest _ _ _ \<Rightarrow> handleBind srv e c m
      | SearchRequest _ _ _ _ _ \<Rightarrow> handleSearch srv e c m
      | AbandonRequest _ \<Rightarrow> handleAbandon srv e c m
      | CompareRequest _ _ _ \<Rightarrow> handleCompare srv e c m
      | AddRequest _ _ \<Rightarrow> handleAdd srv e c m
      | DelRequest _ \<Rightarrow> handleDelete srv e c m
      | ModifyRequest _ _ \<Rightarrow> handleModify srv e c m
      | ExtendedRequest name _ \<Rightarrow>
          if name = NoticeOfStartTLS then handleStartTLS srv e c m
          else if name = NoticeOfWhoAmI then handleWhoAmI srv e c m
          else if name = [] then handleExtended srv e c m
          else handleNotFound srv e c m
      | OtherRequest \<Rightarrow> handleNotFound srv e c m)"

datatype event = Request Message | LogLine string string "string list"

definition handle :: "LDAPServer \<Rightarrow> env \<Rightarrow> Client \<Rightarrow> event \<Rightarrow> run" where
  "handle srv e c ev =
     (case ev of
        Request m \<Rightarrow> ServeLDAP srv e c m
      | LogLine f formatted printed \<Rightarrow> finished c (handleLog srv e f formatted printed))"

section \<open>Auxiliary notions for the proofs\<close>

definition ids_ok :: "string list \<Rightarrow> nat \<Rightarrow> string \<times> string \<Rightarrow> bool" where
  \<comment> \<open>the invariant of the scan after \<open>n\<close> parts\<close>
  "ids_ok parts n ids =
     (case ids of (u, f) \<Rightarrow>
        (u = [] \<and> f = [] \<and> (\<forall>k < n. length (parts ! k) \<noteq> 33)) \<or>
        (\<exists>k < n. length (parts ! k) = 33 \<and> u = parts ! k \<and>
           f = strings_Join (take (Suc k) parts) ''.'' \<and>
           (\<forall>j < n. k < j \<longrightarrow> length (parts ! j) \<noteq> 33)))"

text \<open>
  The views of a run the claims speak about: the records handed to the encoder, the
  storage calls, the responses written, and the calls made before any record.
\<close>

fun encoded :: "call list \<Rightarrow> Interaction list" where
  "encoded [] = []"
| "encoded (Encode i # cs) = i # encoded cs"
| "encoded (_ # cs) = encoded cs"

fun is_storage :: "call \<Rightarrow> bool" where
  "is_storage (AddInteraction _ _) = True"
| "is_storage (AddInteractionWithId _ _) = True"
| "is_storage _ = False"

fun written :: "call list \<Rightarrow> response list" where
  "written [] = []"
| "written (Write r # cs) = r # written cs"
| "written (_ # cs) = written cs"

fun protocol_call :: "call \<Rightarrow> bool" where
  \<comment> \<open>a call on the connection or on a request: no record, no log line, no storage\<close>
  "protocol_call (Write _) = True"
| "protocol_call (Abandon _) = True"
| "protocol_call (Handshake _) = True"
| "protocol_call _ = False"

definition serializes :: "env \<Rightarrow> Interaction \<Rightarrow> bool" where
  "serializes e i = (case jsoniter_Encode e i of Inl _ \<Rightarrow> False | Inr _ \<Rightarrow> True)"

text \<open>
  The routing of one record in the words of the specification: serialize it; on failure
  log a warning and store nothing; otherwise store it once, under the first 20
  characters of \<open>UniqueID\<close> when that is not empty and under the server's token when it
  is, and log a warning if the storage fails.
\<close>

definition spec_route :: "LDAPServer \<Rightarrow> env \<Rightarrow> Interaction \<Rightarrow> call list" where
  "spec_route srv e i =
     Encode i #
     (case jsoniter_Encode e i of
        Inl err \<Rightarrow> [Warning (''Could not encode ldap interaction: '' @ err @ [newline])]
      | Inr buffer \<Rightarrow>
          Debug (''LDAP Interaction: '' @ [newline] @ buffer @ [newline]) #
          (if UniqueID i \<noteq> [] then
             AddInteraction (take 20 (UniqueID i)) buffer #
             (case Storage_AddInteraction e (take 20 (UniqueID i)) buffer of
                Some err \<Rightarrow> [Warning (''Could not store ldap interaction: '' @ err @ [newline])]
              | None \<Rightarrow> [])
           else
             AddInteractionWithId (Token (options srv)) buffer #
             (case Storage_AddInteractionWithId e (Token (options srv)) buffer of
                Some err \<Rightarrow> [Warning (''Could not store ldap interaction: '' @ err @ [newline])]
              | None \<Rightarrow> [])))"

definition is_StartTLS :: "event \<Rightarrow> bool" where
  "is_StartTLS ev =
     (case ev of
        Request m \<Rightarrow>
          (case ProtocolOp m of ExtendedRequest name _ \<Rightarrow> name = NoticeOfStartTLS | _ \<Rightarrow> False)
      | LogLine _ _ _ \<Rightarrow> False)"

definition identified :: "LDAPServer \<Rightarrow> env \<Rightarrow> event \<Rightarrow> bool" where
  \<comment> \<open>a Search whose base object yields a non-empty \<open>uniqueID\<close>\<close>
  "identified srv e ev =
     (case ev of
        Request m \<Rightarrow>
          (case ProtocolOp m of
             SearchRequest baseObject _ _ _ _ \<Rightarrow>
               (case handleSearch_ids (regexp_outside e) (Domain_opt (options srv)) baseObject of
                  Returned (uniqueID, fullID) \<Rightarrow> uniqueID \<noteq> []
                | _ \<Rightarrow> False)
           | _ \<Rightarrow> False)
      | LogLine _ _ _ \<Rightarrow> False)"


text \<open>Concrete inputs for the worked examples.\<close>

definition token33 :: string where
  "token33 = ''abcdefghijklmnopqrstuvwxyz0123456''"

definition domain33 :: string where
  \<comment> \<open>a root domain one of whose labels has length 33\<close>
  "domain33 = token33 @ ''.sh''"

definition srv_example :: LDAPServer where
  "srv_example = \<lparr>options = \<lparr>Domain_opt = ''interact.sh'', Token = ''server-token''\<rparr>,
                  autoTls = Some \<lparr>GetCertificate = Inr (AutoCert ''acme'')\<rparr>\<rparr>"

definition env_example :: env where
  "env_example =
     \<lparr>time_Now = (\<lambda>n. 1000 + n),
      jsoniter_Encode = (\<lambda>i. Inr (''{'' @ Protocol i @ '','' @ UniqueID i @ ''}'')),
      Storage_AddInteraction = (\<lambda>k p. None),
      Storage_AddInteractionWithId = (\<lambda>k p. None),
      X509KeyPair_localhost = Inr LocalhostCert,
      Handshake_error = None,
      regexp_outside = (\<lambda>p. None)\<rparr>"

definition client_example :: Client where
  "client_example = \<lparr>Addr = ''10.0.0.7:4711'', conn = Plaintext, requests = []\<rparr>"

definition search_example :: Message where
  "search_example =
     \<lparr>ProtocolOp = SearchRequest (''sub.'' @ token33 @ ''.interact.sh'') ''f'' ''(f)'' ''[]'' ''0'',
      ProtocolOpType = 0,
      String_text = ''MessageId=1, SearchRequest''\<rparr>"

text \<open>Notions used to state and prove the properties of the handlers.\<close>

definition stamp :: "env \<Rightarrow> nat \<Rightarrow> Interaction \<Rightarrow> Interaction" where
  "stamp e n i = i\<lparr>Protocol := ''ldap'', Timestamp := time_Now e n\<rparr>"

definition search_message :: "string \<Rightarrow> string \<Rightarrow> string \<Rightarrow> string \<Rightarrow> string \<Rightarrow> string" where
  "search_message b f fs a t =
     ''Type=Search'' @ [newline]
     @ ''BaseDn='' @ b @ [newline]
     @ ''Filter='' @ f @ [newline]
     @ ''FilterString='' @ fs @ [newline]
     @ ''Attributes='' @ a @ [newline]
     @ ''TimeLimit='' @ t @ [newline]"

definition records_due :: "LDAPServer \<Rightarrow> env \<Rightarrow> Client \<Rightarrow> event \<Rightarrow> nat" where
  "records_due srv e c ev =
     (if ending (handle srv e c ev) \<noteq> Done then 0
      else if is_StartTLS ev \<and> Handshake_error e \<noteq> None then 0
      else if identified srv e ev then 2 else 1)"

definition well_shaped :: "LDAPServer \<Rightarrow> env \<Rightarrow> call list \<Rightarrow> bool" where
  "well_shaped srv e cs =
     (cs = takeWhile protocol_call cs @ concat (map (spec_route srv e) (encoded cs)) \<and>
      map (\<lambda>i. (Protocol i, Timestamp i)) (encoded cs)
        = map (\<lambda>k. (''ldap'', time_Now e k)) [0..<length (encoded cs)])"


fun is_AddInteraction :: "call \<Rightarrow> bool" where
  "is_AddInteraction (AddInteraction _ _) = True"
| "is_AddInteraction _ = False"

definition env_failing :: env where
  "env_failing = env_example\<lparr>jsoniter_Encode := (\<lambda>i. Inl ''cannot encode'')\<rparr>"



text \<open>Notions used to state and prove the properties of the extraction.\<close>

definition label_class :: "(char \<times> char) list" where
  "label_class = [(CHR ''a'', CHR ''z''), (CHR ''0'', CHR ''9''), (CHR ''-'', CHR ''-'')]"

text \<open>
  The pattern in the words of the specification: one or more characters from lowercase
  letters, digits and hyphen, then a dot, then the root domain, taken literally; whether
  it matches at the start of a string, whether it occurs in a string, and the first
  matching substring.
\<close>

definition label_char :: "char \<Rightarrow> bool" where
  "label_char c = (between CHR ''a'' CHR ''z'' c \<or> between CHR ''0'' CHR ''9'' c \<or> c = CHR ''-'')"

text \<open>
  A root domain free of regular expression metacharacters: ASCII, and apart from the dot,
  which the handler escapes, no character that is an operator of the pattern syntax.
\<close>

definition literal_char :: "char \<Rightarrow> bool" where
  "literal_char c = (is_ascii c \<and> c \<notin> set ''+*?()|[]{}^$'' \<and> c \<noteq> backslash)"

definition after_prefix :: pstate where
  "after_prefix = \<lparr>stack = [], alts = [], seq = [Lit CHR ''.'', Plus (Class label_class)],
                    mode = Normal, lastRepeat = False\<rparr>"

definition spec_match_at :: "string \<Rightarrow> string \<Rightarrow> bool" where
  "spec_match_at d s = (\<exists>run post. run \<noteq> [] \<and> list_all label_char run \<and> s = run @ CHR ''.'' # d @ post)"


fun spec_first_match :: "string \<Rightarrow> string \<Rightarrow> string" where
  "spec_first_match d [] = []"
| "spec_first_match d (c # cs) =
     (let n = length (takeWhile label_char (c # cs))
      in if 1 \<le> n \<and> take (Suc (length d)) (drop n (c # cs)) = CHR ''.'' # d
         then take (n + Suc (length d)) (c # cs)
         else spec_first_match d cs)"

section \<open>Properties of the strings and of the scan\<close>

lemma Split_nonempty: "strings_Split s sep \<noteq> []"
  by (induction s) (auto split: list.splits)

lemma Split_no_sep: "p \<in> set (strings_Split s sep) \<Longrightarrow> sep \<notin> set p"
proof (induction s arbitrary: p)
  case Nil
  then show ?case by simp
next
  case (Cons c cs)
  show ?case
  proof (cases "c = sep")
    case True
    with Cons show ?thesis by auto
  next
    case False
    obtain q qs where q: "strings_Split cs sep = q # qs"
      using Split_nonempty [of cs sep] by (cases "strings_Split cs sep") auto
    with Cons False show ?thesis by auto
  qed
qed

lemma Split_append_sep:
  "sep \<notin> set p \<Longrightarrow> strings_Split (p @ sep # s) sep = p # strings_Split s sep"
  by (induction p) auto

lemma Split_no_sep_id: "sep \<notin> set p \<Longrightarrow> strings_Split p sep = [p]"
  by (induction p) auto

lemma Split_Join:
  "ps \<noteq> [] \<Longrightarrow> \<forall>p \<in> set ps. sep \<notin> set p \<Longrightarrow> strings_Split (strings_Join ps [sep]) sep = ps"
proof (induction ps "[sep]" rule: strings_Join.induct)
  case 1
  then show ?case by simp
next
  case (2 e)
  then show ?case by (simp add: Split_no_sep_id)
next
  case (3 e v va)
  then show ?case by (simp add: Split_append_sep)
qed

lemma Join_length_ge: "p \<in> set ps \<Longrightarrow> length p \<le> length (strings_Join ps sep)"
  by (induction ps sep rule: strings_Join.induct) auto

lemma scan_invariant:
  "parts = pre @ rest \<Longrightarrow> i = length pre \<Longrightarrow> ids_ok parts i ids
   \<Longrightarrow> ids_ok parts (length parts) (scan parts i rest ids)"
proof (induction rest arbitrary: pre i ids)
  case Nil
  then show ?case by simp
next
  case (Cons part rest)
  obtain u f where ids: "ids = (u, f)" by (cases ids)
  let ?ids' = "(if length part = 33
        then (part, if i + 1 \<le> length parts then strings_Join (take (i + 1) parts) ''.'' else part)
        else (u, f))"
  have nth: "parts ! i = part" using Cons.prems by simp
  have lt: "i < length parts" using Cons.prems by simp
  have ok': "ids_ok parts (Suc i) ?ids'"
  proof (cases "length part = 33")
    case True
    then show ?thesis using nth lt
      unfolding ids_ok_def by (auto simp: less_Suc_eq)
  next
    case False
    then show ?thesis using Cons.prems(3) nth
      unfolding ids_ok_def ids by (auto simp: less_Suc_eq)
  qed
  have "ids_ok parts (length parts) (scan parts (Suc i) rest ?ids')"
    by (rule Cons.IH [of "pre @ [part]"]) (use Cons.prems ok' in auto)
  then show ?case unfolding ids by simp
qed

lemma scan_ok: "ids_ok parts (length parts) (scan parts 0 parts ([], []))"
  by (rule scan_invariant [of parts "[]"]) (auto simp: ids_ok_def)


lemma match_ids_cases:
  assumes "match_ids m = (u, f)"
  shows "(u = [] \<and> f = [] \<and> (m = [] \<or> (\<forall>p \<in> set (strings_Split m CHR ''.''). length p \<noteq> 33)))
       \<or> (m \<noteq> [] \<and> (\<exists>k < length (strings_Split m CHR ''.'').
             length (strings_Split m CHR ''.'' ! k) = 33 \<and> u = strings_Split m CHR ''.'' ! k \<and>
             f = strings_Join (take (Suc k) (strings_Split m CHR ''.'')) ''.'' \<and>
             (\<forall>j < length (strings_Split m CHR ''.''). k < j \<longrightarrow> length (strings_Split m CHR ''.'' ! j) \<noteq> 33)))"
proof (cases "m = []")
  case True
  with assms show ?thesis by (simp add: match_ids_def)
next
  case False
  let ?parts = "strings_Split m CHR ''.''"
  have ne: "?parts \<noteq> []" by (rule Split_nonempty)
  have "scan ?parts 0 ?parts ([], []) = (u, f)"
    using assms False ne by (simp add: match_ids_def Let_def)
  then have "ids_ok ?parts (length ?parts) (u, f)"
    using scan_ok [of ?parts] by simp
  then show ?thesis using False
    unfolding ids_ok_def by (auto simp: in_set_conv_nth)
qed

lemma handleSearch_ids_Returned:
  assumes "handleSearch_ids outside d b = Returned ids"
  shows "\<exists>m. ids = match_ids m"
  using assms
  unfolding handleSearch_ids_def Compile_ptr_def FindString_def
  by (auto simp: Let_def split: compiled.splits outcome.splits option.splits)

lemma Join_take_props:
  assumes k: "k < length parts" and nodot: "\<forall>p \<in> set parts. CHR ''.'' \<notin> set p"
  shows "last (strings_Split (strings_Join (take (Suc k) parts) ''.'') CHR ''.'') = parts ! k"
    and "length (parts ! k) \<le> length (strings_Join (take (Suc k) parts) ''.'')"
proof -
  have ne: "take (Suc k) parts \<noteq> []" using k by auto
  have nd: "\<forall>p \<in> set (take (Suc k) parts). CHR ''.'' \<notin> set p"
    using nodot by (meson in_set_takeD)
  have "strings_Split (strings_Join (take (Suc k) parts) ''.'') CHR ''.'' = take (Suc k) parts"
    using Split_Join [OF ne nd] by simp
  moreover have "last (take (Suc k) parts) = parts ! k"
    using k by (simp add: take_Suc_conv_app_nth)
  ultimately show "last (strings_Split (strings_Join (take (Suc k) parts) ''.'') CHR ''.'') = parts ! k"
    by simp
  have "parts ! k \<in> set (take (Suc k) parts)"
    using k by (simp add: take_Suc_conv_app_nth)
  then show "length (parts ! k) \<le> length (strings_Join (take (Suc k) parts) ''.'')"
    by (rule Join_length_ge)
qed

section \<open>The identifier pair\<close>

lemma handleSearch_ids_match:
  assumes "handleSearch_ids outside d b = Returned ids"
  shows "\<exists>match.
           FindString (Compile_ptr outside
             (pattern_prefix @ strings_ReplaceAll d CHR ''.'' [backslash, CHR ''.''])) b
             = Returned match
           \<and> ids = match_ids match"
  using assms
  unfolding handleSearch_ids_def
  by (auto simp: Let_def split: outcome.splits)

text \<open>
  C10. In the identifier extraction of the Search handler, \<open>uniqueID\<close> is empty
  exactly when \<open>fullID\<close> is empty; when they are not empty, \<open>uniqueID\<close> has
  length 33 and is the last dot-separated label of \<open>fullID\<close>. With respect to the
  text the matcher found: \<open>uniqueID\<close> is empty exactly when that text is empty or
  none of its parts has length 33; otherwise \<open>uniqueID\<close> is the last part of length
  33 and \<open>fullID\<close> is the join of the parts up to and including it, never the bare
  part of the other branch: the guard \<open>i+1 <= len(parts)\<close> holds at every index of
  the loop.
\<close>

theorem ids_empty_together:
  assumes "handleSearch_ids outside d b = Returned (uniqueID, fullID)"
  shows "(uniqueID = [] \<longleftrightarrow> fullID = []) \<and>
         (uniqueID \<noteq> [] \<longrightarrow>
            length uniqueID = 33 \<and> last (strings_Split fullID CHR ''.'') = uniqueID) \<and>
         (\<exists>match.
            FindString (Compile_ptr outside
              (pattern_prefix @ strings_ReplaceAll d CHR ''.'' [backslash, CHR ''.''])) b
              = Returned match \<and>
            (uniqueID = [] \<longleftrightarrow>
               match = [] \<or> list_all (\<lambda>p. length p \<noteq> 33) (strings_Split match CHR ''.'')) \<and>
            (uniqueID \<noteq> [] \<longrightarrow>
               (\<exists>k < length (strings_Split match CHR ''.'').
                  strings_Split match CHR ''.'' ! k = uniqueID \<and>
                  fullID = strings_Join (take (k + 1) (strings_Split match CHR ''.'')) ''.'' \<and>
                  (\<forall>j < length (strings_Split match CHR ''.'').
                     k < j \<longrightarrow> length (strings_Split match CHR ''.'' ! j) \<noteq> 33))))"
proof -
  obtain m where fs: "FindString (Compile_ptr outside
      (pattern_prefix @ strings_ReplaceAll d CHR ''.'' [backslash, CHR ''.''])) b = Returned m"
    and m: "match_ids m = (uniqueID, fullID)"
    using handleSearch_ids_match [OF assms] by auto
  let ?parts = "strings_Split m CHR ''.''"
  from match_ids_cases [OF m] consider
      (none) "uniqueID = []" "fullID = []"
        "m = [] \<or> (\<forall>p \<in> set ?parts. length p \<noteq> 33)"
    | (found) k where "m \<noteq> []" "k < length ?parts" "length (?parts ! k) = 33"
        "uniqueID = ?parts ! k"
        "fullID = strings_Join (take (Suc k) ?parts) ''.''"
        "\<forall>j < length ?parts. k < j \<longrightarrow> length (?parts ! j) \<noteq> 33"
    by blast
  then show ?thesis
  proof cases
    case none
    have "\<exists>match.
            FindString (Compile_ptr outside
              (pattern_prefix @ strings_ReplaceAll d CHR ''.'' [backslash, CHR ''.''])) b
              = Returned match \<and>
            (uniqueID = [] \<longleftrightarrow>
               match = [] \<or> list_all (\<lambda>p. length p \<noteq> 33) (strings_Split match CHR ''.'')) \<and>
            (uniqueID \<noteq> [] \<longrightarrow>
               (\<exists>k < length (strings_Split match CHR ''.'').
                  strings_Split match CHR ''.'' ! k = uniqueID \<and>
                  fullID = strings_Join (take (k + 1) (strings_Split match CHR ''.'')) ''.'' \<and>
                  (\<forall>j < length (strings_Split match CHR ''.'').
                     k < j \<longrightarrow> length (strings_Split match CHR ''.'' ! j) \<noteq> 33)))"
      using fs none by (intro exI [of _ m]) (auto simp: list_all_iff)
    then show ?thesis using none by simp
  next
    case (found k)
    note k = found(2) and len = found(3) and u = found(4) and f = found(5)
    have nodot: "\<forall>p \<in> set ?parts. CHR ''.'' \<notin> set p"
      using Split_no_sep by blast
    note props = Join_take_props [OF k nodot]
    have une: "uniqueID \<noteq> []" using u len by auto
    have fne: "fullID \<noteq> []" using props(2) len f by auto
    have l: "last (strings_Split fullID CHR ''.'') = uniqueID"
      using props(1) u f by simp
    have some33: "\<not> list_all (\<lambda>p. length p \<noteq> 33) ?parts"
      using k len by (auto simp: list_all_iff)
    have "\<exists>match.
            FindString (Compile_ptr outside
              (pattern_prefix @ strings_ReplaceAll d CHR ''.'' [backslash, CHR ''.''])) b
              = Returned match \<and>
            (uniqueID = [] \<longleftrightarrow>
               match = [] \<or> list_all (\<lambda>p. length p \<noteq> 33) (strings_Split match CHR ''.'')) \<and>
            (uniqueID \<noteq> [] \<longrightarrow>
               (\<exists>k < length (strings_Split match CHR ''.'').
                  strings_Split match CHR ''.'' ! k = uniqueID \<and>
                  fullID = strings_Join (take (k + 1) (strings_Split match CHR ''.'')) ''.'' \<and>
                  (\<forall>j < length (strings_Split match CHR ''.'').
                     k < j \<longrightarrow> length (strings_Split match CHR ''.'' ! j) \<noteq> 33)))"
      using fs une some33 found(1) k u f found(6)
      by (intro exI [of _ m]) auto
    then show ?thesis using une fne l u len by simp
  qed
qed

theorem ids_empty_together_witness:
  "handleSearch_ids (\<lambda>p. None) domain33 (''cn=x,sub.'' @ domain33 @ ''/a'')
     = Returned (token33, ''sub.'' @ token33)
   \<and> FindString (Compile_ptr (\<lambda>p. None)
         (pattern_prefix @ strings_ReplaceAll domain33 CHR ''.'' [backslash, CHR ''.'']))
         (''cn=x,sub.'' @ domain33 @ ''/a'')
       = Returned (''sub.'' @ token33 @ ''.sh'')
   \<and> strings_Split (''sub.'' @ token33 @ ''.sh'') CHR ''.'' = [''sub'', token33, ''sh'']
   \<and> length token33 = 33
   \<and> last (strings_Split (''sub.'' @ token33) CHR ''.'') = token33"
proof -
  have h: "handleSearch_ids (\<lambda>p. None) domain33 (''cn=x,sub.'' @ domain33 @ ''/a'')
     = Returned (token33, ''sub.'' @ token33)"
    by code_simp
  have fs: "FindString (Compile_ptr (\<lambda>p. None)
         (pattern_prefix @ strings_ReplaceAll domain33 CHR ''.'' [backslash, CHR ''.'']))
         (''cn=x,sub.'' @ domain33 @ ''/a'')
       = Returned (''sub.'' @ token33 @ ''.sh'')"
    by code_simp
  have sp: "strings_Split (''sub.'' @ token33 @ ''.sh'') CHR ''.'' = [''sub'', token33, ''sh'']"
    by code_simp
  have n: "token33 \<noteq> []" by (simp add: token33_def)
  from ids_empty_together [OF h] show ?thesis using h fs sp n by simp
qed

section \<open>Properties of the recorder and the handlers\<close>

lemma logInteraction_route:
  "UniqueID i = [] \<Longrightarrow> logInteraction srv e n i = spec_route srv e (stamp e n i)"
  by (simp add: logInteraction_def spec_route_def stamp_def Let_def split: sum.splits option.splits)

lemma encoded_append: "encoded (xs @ ys) = encoded xs @ encoded ys"
  by (induction xs rule: encoded.induct) auto

lemma written_append: "written (xs @ ys) = written xs @ written ys"
  by (induction xs rule: written.induct) auto

lemma encoded_route: "encoded (spec_route srv e i) = [i]"
  by (simp add: spec_route_def split: sum.splits option.splits)

lemma written_route: "written (spec_route srv e i) = []"
  by (simp add: spec_route_def split: sum.splits option.splits)

lemma takeWhile_route: "takeWhile protocol_call (spec_route srv e i @ cs) = []"
  by (simp add: spec_route_def)

lemma takeWhile_route': "takeWhile protocol_call (spec_route srv e i) = []"
  by (simp add: spec_route_def)

lemma storage_route:
  "filter is_storage (spec_route srv e i) =
     (case jsoniter_Encode e i of
        Inl _ \<Rightarrow> []
      | Inr buffer \<Rightarrow>
          [if UniqueID i \<noteq> [] then AddInteraction (take 20 (UniqueID i)) buffer
           else AddInteractionWithId (Token (options srv)) buffer])"
  by (simp add: spec_route_def split: sum.splits option.splits)

lemma handleSearch_ids_length:
  assumes "handleSearch_ids outside d b = Returned (u, f)" and "u \<noteq> []"
  shows "length u = 33"
proof -
  obtain m where m: "match_ids m = (u, f)"
    using handleSearch_ids_Returned [OF assms(1)] by auto
  from match_ids_cases [OF m] assms(2) show ?thesis by auto
qed

lemma handleSearch_found:
  assumes op: "ProtocolOp m = SearchRequest b f fs a t"
    and ids: "handleSearch_ids (regexp_outside e) (Domain_opt (options srv)) b = Returned (u, fid)"
    and u: "u \<noteq> []"
  shows "handleSearch srv e c m =
     finished c
       ([Write (search_entry b), Write (SearchResultDoneResponse LDAPResultSuccess)] @
        spec_route srv e \<lparr>Protocol = ''ldap'', UniqueID = u, FullId = fid,
                     RawRequest = search_message b f fs a t, RemoteAddress = Addr c,
                     Timestamp = time_Now e 0\<rparr> @
        spec_route srv e (stamp e 1 (Interaction_of (Addr c) (search_message b f fs a t))))"
proof -
  have len: "length u = 33" by (rule handleSearch_ids_length [OF ids u])
  then have sl: "slice_to u 20 = Returned (take 20 u)" by (simp add: slice_to_def)
  show ?thesis
    unfolding handleSearch_def GetSearchRequest_def
    using op ids u sl
    by (simp add: Let_def logInteraction_route search_message_def)
       (simp add: spec_route_def split: sum.splits option.splits)
qed

lemma handleSearch_none:
  assumes op: "ProtocolOp m = SearchRequest b f fs a t"
    and ids: "handleSearch_ids (regexp_outside e) (Domain_opt (options srv)) b = Returned ([], fid)"
  shows "handleSearch srv e c m =
     finished c
       ([Write (search_entry b), Write (SearchResultDoneResponse LDAPResultSuccess)] @
        spec_route srv e (stamp e 0 (Interaction_of (Addr c) (search_message b f fs a t))))"
  unfolding handleSearch_def GetSearchRequest_def
  using op ids
  by (simp add: Let_def logInteraction_route search_message_def)

lemma handleSearch_panic:
  assumes op: "ProtocolOp m = SearchRequest b f fs a t"
    and ids: "handleSearch_ids (regexp_outside e) (Domain_opt (options srv)) b = Panic"
  shows "handleSearch srv e c m =
     panicked c [Write (search_entry b), Write (SearchResultDoneResponse LDAPResultSuccess)]"
  unfolding handleSearch_def GetSearchRequest_def
  using op ids
  by (simp add: Let_def)

lemmas handler_defs =
  handleBind_def handleAbandon_def handleNotFound_def handleCompare_def handleAdd_def
  handleDelete_def handleModify_def handleStartTLS_def handleWhoAmI_def handleExtended_def
  handleLog_def GetBindRequest_def GetAbandonRequest_def GetCompareRequest_def
  GetAddRequest_def GetModifyRequest_def GetExtendedRequest_def getTLSconfig_def
  GetCertificateFunc_def

lemmas run_simps =
  finished_def panicked_def logInteraction_route encoded_append written_append
  encoded_route written_route takeWhile_route takeWhile_route' Let_def

lemma handleSearch_shaped:
  assumes op: "ProtocolOp m = SearchRequest b f fs a t"
  shows "well_shaped srv e (calls (handleSearch srv e c m))"
proof (cases "handleSearch_ids (regexp_outside e) (Domain_opt (options srv)) b")
  case (Returned ids)
  obtain u fid where ids: "ids = (u, fid)" by (cases ids)
  show ?thesis
  proof (cases "u = []")
    case True
    show ?thesis
      using handleSearch_none [OF op, where srv = srv and fid = fid and e = e and c = c] Returned ids True
      by (simp add: well_shaped_def run_simps stamp_def)
  next
    case False
    show ?thesis
      using handleSearch_found [OF op, where srv = srv and u = u and fid = fid and e = e and c = c] Returned ids False
      by (simp add: well_shaped_def run_simps stamp_def)
  qed
next
  case Panic
  show ?thesis
    using handleSearch_panic [OF op Panic, of c]
    by (simp add: well_shaped_def run_simps)
qed

lemma handle_shaped: "well_shaped srv e (calls (handle srv e c ev))"
proof (cases ev)
  case (LogLine f formatted printed)
  then show ?thesis
    by (simp add: handle_def well_shaped_def handler_defs run_simps stamp_def)
next
  case (Request m)
  show ?thesis
  proof (cases "ProtocolOp m")
    case (SearchRequest b f fs a t)
    then show ?thesis
      using handleSearch_shaped [OF SearchRequest] Request
      by (simp add: handle_def ServeLDAP_def)
  qed (use Request in \<open>simp_all add: handle_def ServeLDAP_def well_shaped_def handler_defs
        run_simps stamp_def split: option.splits sum.splits\<close>)
qed

lemma handleSearch_count:
  assumes op: "ProtocolOp m = SearchRequest b f fs a t"
  shows "length (encoded (calls (handleSearch srv e c m))) =
           (if ending (handleSearch srv e c m) \<noteq> Done then 0
            else if (case handleSearch_ids (regexp_outside e) (Domain_opt (options srv)) b of
                       Returned (uniqueID, fullID) \<Rightarrow> uniqueID \<noteq> [] | _ \<Rightarrow> False)
            then 2 else 1)"
proof (cases "handleSearch_ids (regexp_outside e) (Domain_opt (options srv)) b")
  case (Returned ids)
  obtain u fid where ids: "ids = (u, fid)" by (cases ids)
  show ?thesis
  proof (cases "u = []")
    case True
    show ?thesis
      using handleSearch_none [OF op, where srv = srv and fid = fid and e = e and c = c] Returned ids True
      by (simp add: run_simps)
  next
    case False
    show ?thesis
      using handleSearch_found [OF op, where srv = srv and u = u and fid = fid and e = e and c = c] Returned ids False
      by (simp add: run_simps)
  qed
next
  case Panic
  show ?thesis
    using handleSearch_panic [OF op Panic, of c] by (simp add: run_simps)
qed

lemma handle_count: "length (encoded (calls (handle srv e c ev))) = records_due srv e c ev"
proof (cases ev)
  case (LogLine f formatted printed)
  then show ?thesis
    by (simp add: records_due_def handle_def handler_defs run_simps is_StartTLS_def identified_def)
next
  case (Request m)
  show ?thesis
  proof (cases "ProtocolOp m")
    case (SearchRequest b f fs a t)
    then show ?thesis
      using handleSearch_count [OF SearchRequest, of srv e c] Request
      by (simp add: records_due_def handle_def ServeLDAP_def is_StartTLS_def identified_def)
  qed (use Request in \<open>simp_all add: records_due_def handle_def ServeLDAP_def handler_defs
        run_simps is_StartTLS_def identified_def split: option.splits sum.splits\<close>)
qed

lemma storage_concat_route:
  "length (filter is_storage (concat (map (spec_route srv e) recs))) = length (filter (serializes e) recs)"
  by (induction recs) (auto simp: storage_route serializes_def split: sum.splits)

lemma protocol_call_not_storage: "protocol_call x \<Longrightarrow> \<not> is_storage x"
  by (cases x) auto

lemma storage_takeWhile: "filter is_storage (takeWhile protocol_call cs) = []"
  by (induction cs) (auto simp: protocol_call_not_storage)

lemma shaped_storage:
  assumes "well_shaped srv e cs"
  shows "length (filter is_storage cs) = length (filter (serializes e) (encoded cs))"
proof -
  have "cs = takeWhile protocol_call cs @ concat (map (spec_route srv e) (encoded cs))"
    using assms by (simp add: well_shaped_def)
  then have "filter is_storage cs =
      filter is_storage (takeWhile protocol_call cs @ concat (map (spec_route srv e) (encoded cs)))"
    by simp
  then show ?thesis
    by (simp add: storage_takeWhile storage_concat_route del: filter_concat)
qed




lemma handleSearch_identified_first:
  assumes op: "ProtocolOp m = SearchRequest b f fs a t"
  shows "map (\<lambda>i. UniqueID i \<noteq> []) (encoded (calls (handleSearch srv e c m))) =
           (if length (encoded (calls (handleSearch srv e c m))) = 2 then [True, False]
            else replicate (length (encoded (calls (handleSearch srv e c m)))) False)"
proof (cases "handleSearch_ids (regexp_outside e) (Domain_opt (options srv)) b")
  case (Returned ids)
  obtain u fid where ids: "ids = (u, fid)" by (cases ids)
  show ?thesis
  proof (cases "u = []")
    case True
    show ?thesis
      using handleSearch_none [OF op, where srv = srv and fid = fid and e = e and c = c] Returned ids True
      by (simp add: run_simps stamp_def)
  next
    case False
    show ?thesis
      using handleSearch_found [OF op, where srv = srv and u = u and fid = fid and e = e and c = c] Returned ids False
      by (simp add: run_simps stamp_def)
  qed
next
  case Panic
  show ?thesis
    using handleSearch_panic [OF op Panic, of c] by (simp add: run_simps)
qed

lemma handle_identified_first:
  "map (\<lambda>i. UniqueID i \<noteq> []) (encoded (calls (handle srv e c ev))) =
     (if length (encoded (calls (handle srv e c ev))) = 2 then [True, False]
      else replicate (length (encoded (calls (handle srv e c ev)))) False)"
proof (cases ev)
  case (LogLine f formatted printed)
  then show ?thesis
    by (simp add: handle_def handler_defs run_simps stamp_def)
next
  case (Request m)
  show ?thesis
  proof (cases "ProtocolOp m")
    case (SearchRequest b f fs a t)
    then show ?thesis
      using handleSearch_identified_first [OF SearchRequest, of srv e c] Request
      by (simp add: handle_def ServeLDAP_def)
  qed (use Request in \<open>simp_all add: handle_def ServeLDAP_def handler_defs
        run_simps stamp_def split: option.splits sum.splits\<close>)
qed

text \<open>
  C5 as stated, exactly one record for every handled operation, fails for a Search whose
  base object carries a token: \<open>handleSearch\<close> stores the identified record itself
  and then calls \<open>logInteraction\<close>, so two records are encoded and two storage calls
  are made.
\<close>

theorem one_record_counterexample:
  "length (encoded (calls (handle srv_example env_example client_example (Request search_example)))) = 2
   \<and> length (filter is_storage
        (calls (handle srv_example env_example client_example (Request search_example)))) = 2"
  by code_simp

text \<open>
  C5, amended. A handler run that returns normally, a StartTLS request whose handshake
  fails left aside, hands exactly one record to the encoder through \<open>logInteraction\<close>
  (its \<open>UniqueID\<close> is empty); a Search whose base object yields a non-empty
  \<open>uniqueID\<close> hands over one more record before it, the identified one, two in all.
  Every record is passed to storage once when it serializes and not at all when it does
  not. This covers the not-found path and the log lines of the protocol library.
\<close>

theorem records_per_operation:
  assumes "ending (handle srv e c ev) = Done"
    and "\<not> (is_StartTLS ev \<and> Handshake_error e \<noteq> None)"
  shows "length (encoded (calls (handle srv e c ev))) = (if identified srv e ev then 2 else 1)
       \<and> map (\<lambda>i. UniqueID i \<noteq> []) (encoded (calls (handle srv e c ev)))
           = (if identified srv e ev then [True, False] else [False])
       \<and> length (filter is_storage (calls (handle srv e c ev)))
           = length (filter (serializes e) (encoded (calls (handle srv e c ev))))"
proof -
  have n: "length (encoded (calls (handle srv e c ev))) = (if identified srv e ev then 2 else 1)"
    using assms handle_count [of srv e c ev] by (auto simp: records_due_def)
  moreover have "map (\<lambda>i. UniqueID i \<noteq> []) (encoded (calls (handle srv e c ev)))
           = (if identified srv e ev then [True, False] else [False])"
    using handle_identified_first [of srv e c ev] n by simp
  moreover have "length (filter is_storage (calls (handle srv e c ev)))
           = length (filter (serializes e) (encoded (calls (handle srv e c ev))))"
    by (rule shaped_storage [OF handle_shaped])
  ultimately show ?thesis by simp
qed

theorem records_per_operation_witness:
  "ending (handle srv_example env_failing client_example (Request search_example)) = Done
   \<and> length (encoded (calls (handle srv_example env_failing client_example (Request search_example)))) = 2
   \<and> length (filter is_storage
        (calls (handle srv_example env_failing client_example (Request search_example)))) = 0"
proof -
  have d: "ending (handle srv_example env_failing client_example (Request search_example)) = Done"
    by code_simp
  have s: "\<not> (is_StartTLS (Request search_example) \<and> Handshake_error env_failing \<noteq> None)"
    by code_simp
  have i: "identified srv_example env_failing (Request search_example)"
    by code_simp
  have z: "filter (serializes env_failing)
      (encoded (calls (handle srv_example env_failing client_example (Request search_example)))) = []"
    by code_simp
  from records_per_operation [OF d s] show ?thesis using d i z by simp
qed

lemma AddInteraction_route:
  "filter is_AddInteraction (spec_route srv e i) =
     (case jsoniter_Encode e i of
        Inl _ \<Rightarrow> []
      | Inr buffer \<Rightarrow>
          if UniqueID i \<noteq> [] then [AddInteraction (take 20 (UniqueID i)) buffer] else [])"
  by (simp add: spec_route_def split: sum.splits option.splits)

text \<open>
  C4 as stated fails when the encoder reports an error: \<open>uniqueID\<close> is not empty
  and \<open>AddInteraction\<close> is not called.
\<close>

theorem correlation_key_counterexample:
  "handleSearch_ids (regexp_outside env_example) (Domain_opt (options srv_example)) (''sub.'' @ token33 @ ''.interact.sh'')
     = Returned (token33, token33)
   \<and> token33 \<noteq> []
   \<and> filter is_AddInteraction
        (calls (handleSearch srv_example env_failing client_example search_example)) = []"
  by code_simp

text \<open>
  C4, amended. Whenever the extracted \<open>uniqueID\<close> is not empty it has length 33,
  the slice \<open>uniqueID[:20]\<close> does not panic and has length 20, and the handler
  encodes a record carrying this \<open>uniqueID\<close>; \<open>AddInteraction\<close> is called
  exactly once, with the first 20 characters of \<open>uniqueID\<close> as its key, when the
  encoder succeeds on that record, and not at all when the encoder fails.
\<close>

theorem correlation_key:
  assumes op: "ProtocolOp m = SearchRequest b f fs a t"
    and ids: "handleSearch_ids (regexp_outside e) (Domain_opt (options srv)) b = Returned (uniqueID, fullID)"
    and u: "uniqueID \<noteq> []"
  shows "length uniqueID = 33
       \<and> length (take 20 uniqueID) = 20
       \<and> ending (handleSearch srv e c m) = Done
       \<and> UniqueID (hd (encoded (calls (handleSearch srv e c m)))) = uniqueID
       \<and> filter is_AddInteraction (calls (handleSearch srv e c m)) =
           (case jsoniter_Encode e (hd (encoded (calls (handleSearch srv e c m)))) of
              Inl err \<Rightarrow> []
            | Inr buffer \<Rightarrow> [AddInteraction (take 20 uniqueID) buffer])"
proof -
  have len: "length uniqueID = 33" by (rule handleSearch_ids_length [OF ids u])
  note run = handleSearch_found [OF op ids u, of c]
  have "filter is_AddInteraction (calls (handleSearch srv e c m)) =
           (case jsoniter_Encode e (hd (encoded (calls (handleSearch srv e c m)))) of
              Inl err \<Rightarrow> []
            | Inr buffer \<Rightarrow> [AddInteraction (take 20 uniqueID) buffer])"
    using u by (simp add: run run_simps AddInteraction_route stamp_def split: sum.splits)
  moreover have "UniqueID (hd (encoded (calls (handleSearch srv e c m)))) = uniqueID"
    by (simp add: run run_simps)
  moreover have "ending (handleSearch srv e c m) = Done"
    by (simp add: run run_simps)
  ultimately show ?thesis using len by simp
qed

theorem correlation_key_witness:
  "ProtocolOp search_example = SearchRequest (''sub.'' @ token33 @ ''.interact.sh'') ''f'' ''(f)'' ''[]'' ''0''
   \<and> length token33 = 33
   \<and> filter is_AddInteraction
        (calls (handleSearch srv_example env_example client_example search_example))
       = [AddInteraction ''abcdefghijklmnopqrst'' (''{ldap,'' @ token33 @ ''}'')]"
proof -
  have op: "ProtocolOp search_example
      = SearchRequest (''sub.'' @ token33 @ ''.interact.sh'') ''f'' ''(f)'' ''[]'' ''0''"
    by (simp add: search_example_def)
  have ids: "handleSearch_ids (regexp_outside env_example) (Domain_opt (options srv_example)) (''sub.'' @ token33 @ ''.interact.sh'')
      = Returned (token33, token33)"
    by code_simp
  have u: "token33 \<noteq> []" by (simp add: token33_def)
  have enc: "jsoniter_Encode env_example
       (hd (encoded (calls (handleSearch srv_example env_example client_example search_example))))
      = Inr (''{ldap,'' @ token33 @ ''}'')"
    by code_simp
  have t: "take 20 token33 = ''abcdefghijklmnopqrst''" by code_simp
  from correlation_key [OF op ids u, of client_example]
  show ?thesis using op enc t by simp
qed

text \<open>
  C6 as stated fails on the identified path of \<open>handleSearch\<close>: the run splits into
  five calls of the handler itself, among them the encoding of a record whose
  \<open>Protocol\<close> and \<open>Timestamp\<close> the handler has set and the call of
  \<open>AddInteraction\<close>, followed by the calls of \<open>logInteraction\<close>.
\<close>

theorem recorder_fields_counterexample:
  "calls (handleSearch srv_example env_example client_example search_example) =
     [Write (search_entry (''sub.'' @ token33 @ ''.interact.sh'')),
      Write (SearchResultDoneResponse LDAPResultSuccess),
      Encode \<lparr>Protocol = ''ldap'', UniqueID = token33, FullId = token33,
              RawRequest = search_message (''sub.'' @ token33 @ ''.interact.sh'') ''f'' ''(f)'' ''[]'' ''0'',
              RemoteAddress = ''10.0.0.7:4711'', Timestamp = 1000\<rparr>,
      Debug (''LDAP Interaction: '' @ [newline] @ ''{ldap,'' @ token33 @ ''}'' @ [newline]),
      AddInteraction (take 20 token33) (''{ldap,'' @ token33 @ ''}'')]
     @ logInteraction srv_example env_example 1
         (Interaction_of ''10.0.0.7:4711''
            (search_message (''sub.'' @ token33 @ ''.interact.sh'') ''f'' ''(f)'' ''[]'' ''0''))"
  by code_simp

lemma encoded_logInteraction:
  "encoded (logInteraction srv e n i) = [i\<lparr>Protocol := ''ldap'', Timestamp := time_Now e n\<rparr>]"
  by (simp add: logInteraction_def Let_def split: sum.splits option.splits)

text \<open>
  C6, amended. \<open>logInteraction\<close> sets \<open>Protocol\<close> to \<open>"ldap"\<close> and
  \<open>Timestamp\<close> to a fresh reading of the clock whatever its caller passed, and on
  every path every record handed to the encoder has \<open>Protocol = "ldap"\<close> and, as
  \<open>Timestamp\<close>, the reading of the clock taken for it: the \<open>k\<close>-th record of a
  run carries the \<open>k\<close>-th reading. (The identified record of \<open>handleSearch\<close>
  gets both fields from the handler, as the counterexample shows.)
\<close>

theorem record_fields:
  "encoded (logInteraction srv e n i) = [i\<lparr>Protocol := ''ldap'', Timestamp := time_Now e n\<rparr>]
   \<and> map (\<lambda>i. (Protocol i, Timestamp i)) (encoded (calls (handle srv e c ev)))
       = map (\<lambda>k. (''ldap'', time_Now e k)) [0..<length (encoded (calls (handle srv e c ev)))]"
  using handle_shaped [of srv e c ev] encoded_logInteraction [of srv e n i]
  by (simp add: well_shaped_def)

theorem record_fields_witness:
  "encoded (logInteraction srv_example env_example 3 (Interaction_of ''h'' ''m''))
     = [\<lparr>Protocol = ''ldap'', UniqueID = [], FullId = [], RawRequest = ''m'',
         RemoteAddress = ''h'', Timestamp = 1003\<rparr>]
   \<and> map (\<lambda>i. (Protocol i, Timestamp i))
       (encoded (calls (handle srv_example env_example client_example (Request search_example))))
       = [(''ldap'', 1000), (''ldap'', 1001)]"
proof -
  have n: "length (encoded (calls (handle srv_example env_example client_example (Request search_example)))) = 2"
    by code_simp
  have u: "[0..<2] = [0, Suc 0]" by code_simp
  from record_fields [of srv_example env_example 3 "Interaction_of ''h'' ''m''"
      client_example "Request search_example"]
  show ?thesis using n u by (simp add: env_example_def)
qed



text \<open>
  C8 fails on the code. With no provider configured \<open>getTLSconfig\<close> asks the nil
  provider for its certificate function and panics; with a provider configured it
  returns the embedded localhost certificate (or the error of parsing it) and never
  consults the provider.
\<close>

theorem getTLSconfig_inverted:
  "getTLSconfig \<lparr>options = opts, autoTls = None\<rparr> e = Panic
   \<and> getTLSconfig \<lparr>options = opts, autoTls = Some p\<rparr> e =
       (case X509KeyPair_localhost e of
          Inl er \<Rightarrow>
            Returned (\<lparr>MinVersion = 0, MaxVersion = 0, Certificates = [], ServerName = []\<rparr>, Some er)
        | Inr cert \<Rightarrow>
            Returned (\<lparr>MinVersion = VersionSSL30, MaxVersion = VersionTLS12,
                       Certificates = [cert], ServerName = ''127.0.0.1''\<rparr>, None))"
  by (simp add: getTLSconfig_def GetCertificateFunc_def split: sum.splits)




section \<open>Properties of the pattern and of the extraction\<close>

lemma parse_prefix: "parse_loop initial (pattern_prefix @ rest) = parse_loop after_prefix rest"
  by (simp add: pattern_prefix_def initial_def after_prefix_def label_class_def step_def
      normal_step_def class_step_def class_item_def close_class_def literal_def push_def
      backslash_def is_ascii_def isalnum_def between_def repetition_def group_def)

lemma step_literal:
  assumes "mode st = Normal" and "literal_char c" and "c \<noteq> CHR ''.''"
  shows "step st c = Continue (st\<lparr>seq := Lit c # seq st, mode := Normal, lastRepeat := False\<rparr>)"
  using assms
  by (auto simp: step_def normal_step_def literal_def literal_char_def)

lemma step_escaped_dot:
  assumes "mode st = Normal"
  shows "step st backslash = Continue (st\<lparr>mode := Escape\<rparr>)"
    and "step (st\<lparr>mode := Escape\<rparr>) CHR ''.''
           = Continue (st\<lparr>seq := Lit CHR ''.'' # seq st, mode := Normal, lastRepeat := False\<rparr>)"
  using assms
  by (simp_all add: step_def normal_step_def literal_def backslash_def is_ascii_def
      isalnum_def between_def)

lemma parse_literal_domain:
  assumes "mode st = Normal" and "list_all literal_char d"
  shows "parse_loop st (strings_ReplaceAll d CHR ''.'' [backslash, CHR ''.''])
           = finish (st\<lparr>seq := rev (map Lit d) @ seq st, mode := Normal,
                         lastRepeat := (if d = [] then lastRepeat st else False)\<rparr>)"
  using assms
proof (induction d arbitrary: st)
  case Nil
  then show ?case by (simp add: strings_ReplaceAll_def finish_def)
next
  case (Cons c d)
  let ?st' = "st\<lparr>seq := Lit c # seq st, mode := Normal, lastRepeat := False\<rparr>"
  have m': "mode ?st' = Normal" by simp
  have d: "list_all literal_char d" using Cons.prems by simp
  have IH: "parse_loop ?st' (strings_ReplaceAll d CHR ''.'' [backslash, CHR ''.''])
           = finish (?st'\<lparr>seq := rev (map Lit d) @ seq ?st', mode := Normal,
                         lastRepeat := (if d = [] then lastRepeat ?st' else False)\<rparr>)"
    by (rule Cons.IH [OF m' d])
  have step: "parse_loop st (strings_ReplaceAll (c # d) CHR ''.'' [backslash, CHR ''.''])
      = parse_loop ?st' (strings_ReplaceAll d CHR ''.'' [backslash, CHR ''.''])"
  proof (cases "c = CHR ''.''")
    case True
    show ?thesis
      using step_escaped_dot [OF Cons.prems(1)] True
      by (simp add: strings_ReplaceAll_def)
  next
    case False
    have "literal_char c" using Cons.prems by simp
    from step_literal [OF Cons.prems(1) this False] False show ?thesis
      by (simp add: strings_ReplaceAll_def)
  qed
  show ?case unfolding step IH by simp
qed

lemma compile_literal_domain:
  assumes "list_all literal_char d"
  shows "regexp_Compile (pattern_prefix @ strings_ReplaceAll d CHR ''.'' [backslash, CHR ''.''])
           = Compiled (mk_cat (Plus (Class label_class) # Lit CHR ''.'' # map Lit d))"
proof -
  have m: "mode after_prefix = Normal" by (simp add: after_prefix_def)
  have "rev (rev (map Lit d) @ [Lit CHR ''.'', Plus (Class label_class)])
      = Plus (Class label_class) # Lit CHR ''.'' # map Lit d"
    by simp
  then show ?thesis
    unfolding regexp_Compile_def parse_prefix parse_literal_domain [OF m assms]
    by (simp add: finish_def after_prefix_def group_def)
qed

lemma between_same: "between c c x = (x = c)"
  by (auto simp: between_def dest: antisym)

lemma in_class_label: "in_class label_class c = label_char c"
  by (simp add: label_class_def label_char_def between_same)

lemma dot_not_label: "\<not> label_char CHR ''.''"
  by (simp add: label_char_def between_def)

lemma map_Suc_rev_upt: "map Suc (rev [0..<Suc m]) @ [0] = rev [0..<Suc (Suc m)]"
proof -
  have "[0..<Suc (Suc m)] = 0 # [Suc 0..<Suc (Suc m)]"
    by (rule upt_conv_Cons) simp
  also have "[Suc 0..<Suc (Suc m)] = map Suc [0..<Suc m]"
    by (simp only: map_Suc_upt)
  finally have "rev [0..<Suc (Suc m)] = rev (map Suc [0..<Suc m]) @ [0]"
    by (simp only: rev.simps)
  then show ?thesis by (simp only: rev_map)
qed

lemma ends_Class_Cons:
  "ends (Class C) (x # xs) = (if in_class C x then [1] else [])"
  by simp

lemma star_ends_class:
  "star_ends (ends (Class C)) k s = rev [0..<Suc (min k (length (takeWhile (in_class C) s)))]"
proof (induction k arbitrary: s)
  case 0
  then show ?case by simp
next
  case (Suc k)
  show ?case
  proof (cases s)
    case Nil
    then show ?thesis by simp
  next
    case (Cons x xs)
    show ?thesis
    proof (cases "in_class C x")
      case True
      have e1: "ends (Class C) s = [1]" using Cons True by simp
      have "star_ends (ends (Class C)) (Suc k) s
          = concat (map (\<lambda>e. if e = 0 then []
                else map ((+) e) (star_ends (ends (Class C)) k (drop e s))) (ends (Class C) s)) @ [0]"
        by (simp only: star_ends.simps)
      also have "\<dots> = map ((+) 1) (star_ends (ends (Class C)) k (drop 1 s)) @ [0]"
        by (simp only: e1 list.map concat.simps append_Nil2 one_neq_zero if_False)
      also have "\<dots> = map Suc (rev [0..<Suc (min k (length (takeWhile (in_class C) xs)))]) @ [0]"
        using Cons by (simp only: Suc.IH) simp
      also have "\<dots> = rev [0..<Suc (Suc (min k (length (takeWhile (in_class C) xs))))]"
        by (rule map_Suc_rev_upt)
      finally show ?thesis using Cons True by simp
    next
      case False
      then show ?thesis using Cons by simp
    qed
  qed
qed

lemma ends_Plus_class:
  "ends (Plus (Class C)) s = rev [1..<Suc (length (takeWhile (in_class C) s))]"
proof (cases s)
  case Nil
  then show ?thesis by simp
next
  case (Cons x xs)
  show ?thesis
  proof (cases "in_class C x")
    case False
    then show ?thesis using Cons by simp
  next
    case True
    let ?n = "length (takeWhile (in_class C) xs)"
    have le: "?n \<le> length xs" by (rule length_takeWhile_le)
    have e1: "ends (Class C) s = [1]" using Cons True by simp
    have "ends (Plus (Class C)) s
        = concat (map (\<lambda>e. map ((+) e) (star_ends (ends (Class C)) (length s) (drop e s)))
            (ends (Class C) s))"
      by (simp only: ends.simps)
    also have "\<dots> = map ((+) 1) (star_ends (ends (Class C)) (length s) (drop 1 s))"
      by (simp only: e1 list.map concat.simps append_Nil2)
    also have "\<dots> = map Suc (rev [0..<Suc ?n])"
      using le Cons by (simp only: star_ends_class) (simp add: min_def)
    also have "\<dots> = rev [1..<Suc (Suc ?n)]"
      by (simp only: rev_map [symmetric] map_Suc_upt) simp
    finally show ?thesis using Cons True by simp
  qed
qed

lemma ends_mk_cat_Cons:
  "ends (mk_cat (r # rs)) t
     = concat (map (\<lambda>e. map ((+) e) (ends (mk_cat rs) (drop e t))) (ends r t))"
proof (cases rs)
  case Nil
  have "concat (map (\<lambda>e. [e]) (ends r t)) = ends r t"
    by (induction "ends r t") auto
  then show ?thesis using Nil by simp
next
  case (Cons r' rs')
  then show ?thesis by simp
qed

lemma ends_literal:
  "ends (mk_cat (map Lit w)) t = (if take (length w) t = w then [length w] else [])"
proof (induction w arbitrary: t)
  case Nil
  then show ?case by simp
next
  case (Cons c w)
  show ?case
  proof (cases t)
    case Nil
    then show ?thesis by (simp add: ends_mk_cat_Cons)
  next
    case (Cons x xs)
    then show ?thesis
      using Cons.IH [of xs] by (simp add: ends_mk_cat_Cons)
  qed
qed

lemma concat_map_rev_upt:
  assumes "\<And>e. 1 \<le> e \<Longrightarrow> e < n \<Longrightarrow> g e = []"
  shows "concat (map g (rev [1..<Suc n])) = (if 1 \<le> n then g n else [])"
proof (cases "1 \<le> n")
  case False
  then show ?thesis by simp
next
  case True
  have "concat (map g (rev [1..<n])) = []"
    using assms by (induction n) auto
  then show ?thesis using True by simp
qed

lemma takeWhile_nth_label:
  assumes "e < length (takeWhile P s)"
  shows "P (s ! e)" and "e < length s"
proof -
  have "takeWhile P s ! e \<in> set (takeWhile P s)" using assms by simp
  then have "P (takeWhile P s ! e)" by (auto dest: set_takeWhileD)
  then show "P (s ! e)" using assms by (simp add: takeWhile_nth)
  show "e < length s" using assms length_takeWhile_le [of P s] by simp
qed

lemma ends_pattern:
  "ends (mk_cat (Plus (Class label_class) # Lit CHR ''.'' # map Lit d)) s =
     (let n = length (takeWhile label_char s)
      in if 1 \<le> n \<and> take (Suc (length d)) (drop n s) = CHR ''.'' # d
         then [n + Suc (length d)] else [])"
proof -
  let ?n = "length (takeWhile label_char s)"
  let ?g = "\<lambda>e. map ((+) e) (ends (mk_cat (map Lit (CHR ''.'' # d))) (drop e s))"
  have tw: "takeWhile (in_class label_class) s = takeWhile label_char s"
    by (simp add: in_class_label [abs_def])
  have g: "?g e = (if take (Suc (length d)) (drop e s) = CHR ''.'' # d then [e + Suc (length d)] else [])"
    for e
    by (simp only: ends_literal) simp
  have none: "?g e = []" if "1 \<le> e" "e < ?n" for e
  proof -
    have "label_char (s ! e)" and "e < length s"
      using takeWhile_nth_label [OF that(2)] by auto
    then have "hd (drop e s) \<noteq> CHR ''.''" and "drop e s \<noteq> []"
      using dot_not_label by (auto simp: hd_drop_conv_nth)
    then have "take (Suc (length d)) (drop e s) \<noteq> CHR ''.'' # d"
      by (cases "drop e s") auto
    then show ?thesis by (simp only: g) simp
  qed
  have "ends (mk_cat (Plus (Class label_class) # Lit CHR ''.'' # map Lit d)) s
      = concat (map ?g (ends (Plus (Class label_class)) s))"
    by (simp only: ends_mk_cat_Cons list.map)
  also have "\<dots> = concat (map ?g (rev [1..<Suc ?n]))"
    by (simp only: ends_Plus_class tw)
  also have "\<dots> = (if 1 \<le> ?n then ?g ?n else [])"
    by (rule concat_map_rev_upt) (rule none)
  finally show ?thesis by (simp only: g Let_def) simp
qed

lemma FindString_first_match:
  "regexp_FindString (mk_cat (Plus (Class label_class) # Lit CHR ''.'' # map Lit d)) b
     = spec_first_match d b"
proof (induction b)
  case Nil
  then show ?case by simp
next
  case (Cons c cs)
  show ?case
    by (simp only: regexp_FindString.simps spec_first_match.simps ends_pattern Cons.IH Let_def)
       simp
qed

lemma handleSearch_ids_literal:
  assumes "list_all literal_char d"
  shows "handleSearch_ids outside d b = Returned (match_ids (spec_first_match d b))"
  unfolding handleSearch_ids_def Compile_ptr_def FindString_def
  by (simp add: compile_literal_domain [OF assms] FindString_first_match Let_def
      del: mk_cat.simps)

lemma match_at_code [code]:
  "spec_match_at d s =
     (let n = length (takeWhile label_char s)
      in 1 \<le> n \<and> take (Suc (length d)) (drop n s) = CHR ''.'' # d)"
proof
  assume "spec_match_at d s"
  then obtain run post where run: "run \<noteq> []" "list_all label_char run"
    and s: "s = run @ CHR ''.'' # d @ post"
    unfolding spec_match_at_def by blast
  have "takeWhile label_char s = run"
    unfolding s using run(2) dot_not_label
    by (simp add: takeWhile_append2 list_all_iff)
  then show "let n = length (takeWhile label_char s)
      in 1 \<le> n \<and> take (Suc (length d)) (drop n s) = CHR ''.'' # d"
    using run(1) s by (simp add: Let_def Suc_le_eq)
next
  let ?n = "length (takeWhile label_char s)"
  assume "let n = length (takeWhile label_char s)
      in 1 \<le> n \<and> take (Suc (length d)) (drop n s) = CHR ''.'' # d"
  then have n: "1 \<le> ?n" and t: "take (Suc (length d)) (drop ?n s) = CHR ''.'' # d"
    by (simp_all add: Let_def)
  have "s = takeWhile label_char s @ dropWhile label_char s" by simp
  moreover have "dropWhile label_char s = drop ?n s"
    by (rule dropWhile_eq_drop)
  moreover have "drop ?n s = take (Suc (length d)) (drop ?n s) @ drop (Suc (length d)) (drop ?n s)"
    by (simp only: append_take_drop_id)
  ultimately have "s = takeWhile label_char s @ CHR ''.'' # d @ drop (Suc (length d)) (drop ?n s)"
    using t by (metis append_Cons)
  moreover have "takeWhile label_char s \<noteq> []" using n by auto
  moreover have "list_all label_char (takeWhile label_char s)"
    by (auto simp: list_all_iff dest: set_takeWhileD)
  ultimately show "spec_match_at d s" unfolding spec_match_at_def by blast
qed

lemma first_match_Cons:
  "spec_first_match d (c # cs) =
     (if spec_match_at d (c # cs)
      then take (length (takeWhile label_char (c # cs)) + Suc (length d)) (c # cs)
      else spec_first_match d cs)"
  by (simp only: spec_first_match.simps match_at_code Let_def)

declare spec_first_match.simps(2) [simp del]


lemma first_match_here:
  assumes "spec_match_at d s"
  shows "spec_first_match d s = take (length (takeWhile label_char s) + Suc (length d)) s"
proof (cases s)
  case Nil
  then show ?thesis using assms by (simp add: spec_match_at_def)
next
  case (Cons c cs)
  from assms show ?thesis unfolding Cons by (simp only: first_match_Cons if_True)
qed


lemma first_match_skip:
  assumes "list_all (\<lambda>i. \<not> spec_match_at d (drop i (pre @ rest))) [0..<length pre]"
  shows "spec_first_match d (pre @ rest) = spec_first_match d rest"
  using assms
proof (induction pre)
  case Nil
  then show ?case by simp
next
  case (Cons c pre)
  have all: "\<And>i. i < Suc (length pre) \<Longrightarrow> \<not> spec_match_at d (drop i (c # pre @ rest))"
    using Cons.prems by (auto simp: list_all_iff less_Suc_eq)
  have "\<not> spec_match_at d (c # pre @ rest)" using all [of 0] by simp
  moreover have "list_all (\<lambda>i. \<not> spec_match_at d (drop i (pre @ rest))) [0..<length pre]"
    using all [of "Suc i" for i] by (simp add: list_all_iff)
  ultimately show ?case using Cons.IH by (simp add: first_match_Cons)
qed


text \<open>
  C1 as stated fails on the specification's own second scenario: for the base object
  \<open>sub.<token>.interact.sh\<close> the match is \<open><token>.interact.sh\<close>, because the
  label class of the pattern has no dot, and \<open>fullID\<close> is the token alone.
\<close>

theorem leading_labels_counterexample:
  "handleSearch_ids (\<lambda>p. None) ''interact.sh'' (''sub.'' @ token33 @ ''.interact.sh'')
     = Returned (token33, token33)
   \<and> token33 \<noteq> ''sub.'' @ token33"
  by code_simp

lemma label_no_dot: "list_all label_char run \<Longrightarrow> CHR ''.'' \<notin> set run"
  using dot_not_label by (auto simp: list_all_iff)

lemma match_ids_token:
  assumes len: "length token = 33" and lab: "list_all label_char token"
    and dom: "list_all (\<lambda>p. length p \<noteq> 33) (strings_Split d CHR ''.'')"
  shows "match_ids (token @ CHR ''.'' # d) = (token, token)"
proof -
  let ?m = "token @ CHR ''.'' # d"
  let ?parts = "strings_Split ?m CHR ''.''"
  have parts: "?parts = token # strings_Split d CHR ''.''"
    by (rule Split_append_sep [OF label_no_dot [OF lab]])
  obtain u f where uf: "match_ids ?m = (u, f)" by (cases "match_ids ?m")
  have first: "length (?parts ! 0) = 33" using parts len by simp
  have later: "length (?parts ! j) \<noteq> 33" if "0 < j" "j < length ?parts" for j
  proof -
    from that(1) obtain i where j: "j = Suc i" by (cases j) auto
    then have "i < length (strings_Split d CHR ''.'')" using that(2) parts by simp
    then have "length (strings_Split d CHR ''.'' ! i) \<noteq> 33"
      using dom by (simp add: list_all_iff)
    then show ?thesis using j parts by simp
  qed
  from match_ids_cases [OF uf] consider
      (none) "\<forall>p \<in> set ?parts. length p \<noteq> 33"
    | (found) k where "k < length ?parts" "length (?parts ! k) = 33" "u = ?parts ! k"
        "f = strings_Join (take (Suc k) ?parts) ''.''"
    by blast
  then have "u = token \<and> f = token"
  proof cases
    case none
    then show ?thesis using parts len by simp
  next
    case (found k)
    have "k = 0" using later [of k] found(1,2) by (cases k) auto
    then show ?thesis using found(3,4) parts by simp
  qed
  then show ?thesis using uf by simp
qed

text \<open>
  C1, amended. Let the root domain be free of metacharacters and have no label of length
  33, let the token have exactly 33 characters, all of them lowercase letters, digits or
  hyphens, and let the base object contain the token followed by a dot and the root
  domain such that the pattern matches at no earlier position. Then the extraction
  returns the token as \<open>uniqueID\<close> and the token as \<open>fullID\<close>: labels that
  precede the token are not part of the match and do not reach \<open>fullID\<close>.
\<close>

theorem token_extracted:
  assumes "list_all literal_char d"
    and "list_all (\<lambda>p. length p \<noteq> 33) (strings_Split d CHR ''.'')"
    and "length token = 33"
    and "list_all label_char token"
    and "list_all (\<lambda>i. \<not> spec_match_at d (drop i (pre @ token @ CHR ''.'' # d @ post))) [0..<length pre]"
  shows "handleSearch_ids outside d (pre @ token @ CHR ''.'' # d @ post) = Returned (token, token)"
proof -
  let ?rest = "token @ CHR ''.'' # d @ post"
  have ne: "token \<noteq> []" using assms(3) by auto
  have m: "spec_match_at d ?rest"
    unfolding spec_match_at_def using ne assms(4) by blast
  have tw: "takeWhile label_char ?rest = token"
    using assms(4) dot_not_label by (simp add: takeWhile_append2 list_all_iff)
  have "spec_first_match d (pre @ ?rest) = spec_first_match d ?rest"
    by (rule first_match_skip [OF assms(5)])
  also have "\<dots> = token @ CHR ''.'' # d"
    unfolding first_match_here [OF m] tw by simp
  finally have "spec_first_match d (pre @ ?rest) = token @ CHR ''.'' # d" .
  then show ?thesis
    unfolding handleSearch_ids_literal [OF assms(1)]
    by (simp add: match_ids_token [OF assms(3,4,2)])
qed

theorem token_extracted_witness:
  "list_all literal_char ''interact.sh''
   \<and> length token33 = 33
   \<and> handleSearch_ids (\<lambda>p. None) ''interact.sh'' (''cn=x,sub.'' @ token33 @ ''.interact.sh/a'')
       = Returned (token33, token33)"
proof -
  have 1: "list_all literal_char ''interact.sh''" by code_simp
  have 2: "list_all (\<lambda>p. length p \<noteq> 33) (strings_Split ''interact.sh'' CHR ''.'')" by code_simp
  have 3: "length token33 = 33" by code_simp
  have 4: "list_all label_char token33" by code_simp
  have 5: "list_all (\<lambda>i. \<not> spec_match_at ''interact.sh''
              (drop i (''cn=x,sub.'' @ token33 @ CHR ''.'' # ''interact.sh'' @ ''/a'')))
            [0..<length ''cn=x,sub.'']"
    by code_simp
  from token_extracted [OF 1 2 3 4 5] show ?thesis using 1 3 by simp
qed




lemma compile_unbalanced:
  "regexp_Compile (pattern_prefix @ strings_ReplaceAll ''interact(.sh'' CHR ''.'' [backslash, CHR ''.''])
     = Compile_error"
  by code_simp

text \<open>
  C3 fails on the code. Only the dots of the root domain are escaped. For the root domain
  \<open>interact(.sh\<close> the pattern has an unclosed group, \<open>regexp.Compile\<close> fails, the
  handler drops the error and calls \<open>FindString\<close> on the nil matcher: the extraction
  panics for every base object, after the two search responses have been written and
  before anything is recorded.
\<close>

theorem unescaped_metacharacter_panics:
  "handleSearch_ids outside ''interact(.sh'' baseObject = Panic
   \<and> handleSearch \<lparr>options = \<lparr>Domain_opt = ''interact(.sh'', Token = tok\<rparr>, autoTls = a\<rparr> e c
       \<lparr>ProtocolOp = SearchRequest baseObject f fs at t, ProtocolOpType = ty, String_text = txt\<rparr>
     = panicked c [Write (search_entry baseObject),
                   Write (SearchResultDoneResponse LDAPResultSuccess)]"
proof -
  have p: "handleSearch_ids outside ''interact(.sh'' baseObject = Panic" for outside
    unfolding handleSearch_ids_def Compile_ptr_def FindString_def
    by (simp add: compile_unbalanced Let_def)
  show ?thesis
    using p [of outside] p [of "regexp_outside e"]
    by (simp add: handleSearch_def GetSearchRequest_def Let_def)
qed

section \<open>Two further observations\<close>

text \<open>
  A StartTLS request whose handshake fails is not recorded: the handler returns after the
  operations-error response, before \<open>logInteraction\<close>.
\<close>

theorem failed_handshake_not_recorded:
  "encoded (calls (handleStartTLS srv (e\<lparr>Handshake_error := Some err\<rparr>) c m)) = []
   \<and> filter is_storage (calls (handleStartTLS srv (e\<lparr>Handshake_error := Some err\<rparr>) c m)) = []"
  by (simp add: handleStartTLS_def finished_def panicked_def Let_def
      split: outcome.splits prod.splits)

text \<open>
  \<open>handleDelete\<close> reads a Delete request with the accessor for Compare requests, a
  failing type assertion: every Delete request routed to it panics before anything is
  written or recorded.
\<close>

theorem handleDelete_panics:
  "ServeLDAP srv e c \<lparr>ProtocolOp = DelRequest entry, ProtocolOpType = ty, String_text = txt\<rparr>
     = panicked c []"
  by (simp add: ServeLDAP_def handleDelete_def GetCompareRequest_def)

end
